theory Spec2Isabelle
  imports Main "HOL-Library.Char_ord" "HOL-Library.List_Lexorder"
begin

section \<open>The watcher of sktm: data\<close>

text \<open>
  The theory embeds \<^verbatim>\<open>src/sktm/__init__.py\<close>, the class \<^verbatim>\<open>watcher\<close>. The modules
  \<^verbatim>\<open>sktm.db\<close>, \<^verbatim>\<open>sktm.jenkins\<close>, \<^verbatim>\<open>sktm.patchwork\<close> and \<^verbatim>\<open>sktm.misc\<close> are the
  collaborators of the class. Their answers are parameters of the model (the record
  \<open>world\<close> below), and every call the watcher makes to one of them is appended to a
  history of events, so that the order of the calls can be stated.
  Calls of \<^verbatim>\<open>logging\<close> are left out, and with them \<^verbatim>\<open>cleanup\<close>, which only logs.
  \<^verbatim>\<open>wait_for_pending\<close>, which sleeps and calls \<^verbatim>\<open>check_pending\<close> until \<^verbatim>\<open>self.pj\<close> is
  empty, is not part of the model. A collaborator is taken to return; the exceptions of
  the model are the ones the watcher raises itself. Objects are compared by their
  fields.
\<close>

text \<open>Modelled from the spec: \<^verbatim>\<open>sktm.misc.JobType\<close>, whose members the spec gives as
  BASELINE and PATCHWORK. The third constructor stands for any other value an entry
  of the list of pending builds may hold, which \<^verbatim>\<open>check_pending\<close> tests for.\<close>

datatype JobType = BASELINE | PATCHWORK | OtherJobType int

text \<open>Modelled from the spec: \<^verbatim>\<open>sktm.misc.TestResult\<close>, the result classification of
  a build as the interface of the CI backend in the spec lists it.\<close>

datatype TestResult = SUCCESS | FAILURE | ERROR

text \<open>The patch info tuple
  \<^verbatim>\<open>(patch_id, patch_name, patch_url, baseurl, project_id, patch_date)\<close>.\<close>

type_synonym patch_info = "int \<times> string \<times> string \<times> string \<times> int \<times> string"

text \<open>Modelled from the spec: a series summary of \<^verbatim>\<open>sktm.patchwork\<close>. The fields are
  what the watcher reads of it: the attributes \<^verbatim>\<open>cover_letter\<close> (here the mbox URL of
  the cover letter, when there is one), \<^verbatim>\<open>message_id\<close>, \<^verbatim>\<open>subject\<close>,
  \<^verbatim>\<open>email_addr_set\<close>, and the results of \<^verbatim>\<open>get_patch_mbox_url_list()\<close>,
  \<^verbatim>\<open>get_patch_url_list()\<close> and \<^verbatim>\<open>get_patch_info_list()\<close>.\<close>

record series_summary =
  cover_letter :: "string option"
  message_id :: string
  subject :: string
  email_addr_set :: "string list"
  patch_mbox_url_list :: "string list"
  patch_url_list :: "string list"
  patch_info_list :: "patch_info list"

text \<open>Modelled from the spec: a Patchwork project interface of \<^verbatim>\<open>sktm.patchwork\<close>.
  \<open>pw_is_v2\<close> says whether the object is a \<^verbatim>\<open>PatchworkV2Project\<close>; \<open>pw_since\<close> and
  \<open>pw_lastpatch\<close> are the two cursors \<^verbatim>\<open>add_pw\<close> assigns.\<close>

record pw_project =
  pw_is_v2 :: bool
  pw_baseurl :: string
  pw_pname :: string
  pw_project_id :: int
  pw_since :: "string option"
  pw_lastpatch :: "int option"

text \<open>Modelled from the spec: the patch record \<^verbatim>\<open>get_patch_by_id\<close> returns, with the
  project identifier under \<^verbatim>\<open>project.id\<close> (REST variant) and under \<^verbatim>\<open>project_id\<close>
  (XML-RPC variant).\<close>

record patch_record =
  pr_name :: string
  pr_date :: string
  pr_project :: int
  pr_project_id :: int

text \<open>The keyword arguments of \<^verbatim>\<open>jk.build\<close>.\<close>

record build_args =
  b_baserepo :: "string option"
  b_ref :: "string option"
  b_baseconfig :: "string option"
  b_makeopts :: "string option"
  b_message_id :: "string option"
  b_subject :: "string option"
  b_emails :: "string list option"
  b_patch_url_list :: "string list option"

text \<open>An entry of \<^verbatim>\<open>self.pj\<close>: build type, build number, Patchwork interface.\<close>

type_synonym pjob = "JobType \<times> int \<times> pw_project option"

text \<open>The history: one event for each call to a collaborator, with its arguments, and
  one for each change of \<^verbatim>\<open>self.pj\<close>.\<close>

datatype event =
    SubprocessCall "string list"
  | PwNewV1 string string "int option"
  | PwNewV2 string string "int option"
  | PwGetNewPatchsets pw_project
  | PwGetPatchsets pw_project "patch_info list"
  | PwGetPatchById pw_project int
  | DbGetStable "string option"
  | DbGetLastCheckedPatch string int
  | DbGetLastPendingPatch string int
  | DbGetLastCheckedPatchDate string int
  | DbGetLastPendingPatchDate string int
  | DbGetExpiredPendingPatches string int int
  | DbCommitSeries "patch_info list"
  | DbSetPatchsetPending string int "patch_info list"
  | DbUpdateBaseline "string option" string string TestResult int
  | DbCommitTested "patch_info list"
  | JkBuild build_args
  | JkIsBuildComplete int
  | JkGetResult int
  | JkGetResultUrl int
  | JkGetBaseHash int
  | JkGetBaseCommitdate int
  | JkGetPatchUrlList int
  | PjAppend pjob
  | PjRemove pjob

text \<open>The collaborators. Each answer may depend on everything that happened before
  the call (the history), which covers a store that remembers what was written to it,
  a tracker whose cursor advances and builds that complete as time passes.\<close>

record world =
  subprocess_call :: "event list \<Rightarrow> string list \<Rightarrow> int"
  pw_new_v1 :: "event list \<Rightarrow> string \<Rightarrow> string \<Rightarrow> int option \<Rightarrow> pw_project"
  pw_new_v2 :: "event list \<Rightarrow> string \<Rightarrow> string \<Rightarrow> int option \<Rightarrow> pw_project"
  pw_get_new_patchsets :: "event list \<Rightarrow> pw_project \<Rightarrow> series_summary list"
  pw_get_patchsets :: "event list \<Rightarrow> pw_project \<Rightarrow> patch_info list \<Rightarrow> series_summary list"
  pw_get_patch_by_id :: "event list \<Rightarrow> pw_project \<Rightarrow> int \<Rightarrow> patch_record"
  db_get_stable :: "event list \<Rightarrow> string option \<Rightarrow> string option"
  db_get_last_checked_patch :: "event list \<Rightarrow> string \<Rightarrow> int \<Rightarrow> int option"
  db_get_last_pending_patch :: "event list \<Rightarrow> string \<Rightarrow> int \<Rightarrow> int option"
  db_get_last_checked_patch_date :: "event list \<Rightarrow> string \<Rightarrow> int \<Rightarrow> string option"
  db_get_last_pending_patch_date :: "event list \<Rightarrow> string \<Rightarrow> int \<Rightarrow> string option"
  db_get_expired_pending_patches :: "event list \<Rightarrow> string \<Rightarrow> int \<Rightarrow> int \<Rightarrow> patch_info list"
  jk_build :: "event list \<Rightarrow> build_args \<Rightarrow> int"
  jk_is_build_complete :: "event list \<Rightarrow> int \<Rightarrow> bool"
  jk_get_result :: "event list \<Rightarrow> int \<Rightarrow> TestResult"
  jk_get_result_url :: "event list \<Rightarrow> int \<Rightarrow> string"
  jk_get_base_hash :: "event list \<Rightarrow> int \<Rightarrow> string"
  jk_get_base_commitdate :: "event list \<Rightarrow> int \<Rightarrow> string"
  jk_get_patch_url_list :: "event list \<Rightarrow> int \<Rightarrow> string list"

text \<open>The attributes of a \<^verbatim>\<open>watcher\<close> object, and the history so far.\<close>

record watcher =
  patch_filter :: "string option"
  makeopts :: "string option"
  pj :: "pjob list"
  pw :: "pw_project list"
  baserepo :: "string option"
  baseref :: "string option"
  cfgurl :: "string option"
  trace :: "event list"

text \<open>The exceptions the watcher raises. \<open>AttributeError\<close> is Python's own, for a call
  of \<^verbatim>\<open>get_patch_by_id\<close> on \<^verbatim>\<open>None\<close>.\<close>

datatype error =
    NeverTested string string
  | FilterFailed string
  | FilterSignal string int
  | FilterInvalidStatus string int
  | MalformedPatchUrl string
  | NoStableBaseline "string option"
  | UnknownJobType JobType
  | AttributeError

definition log_event :: "event \<Rightarrow> watcher \<Rightarrow> watcher" where
  "log_event e s = s\<lparr>trace := trace s @ [e]\<rparr>"

section \<open>Construction, baseline parameters, registration of projects\<close>

definition init_watcher :: "string option \<Rightarrow> string option \<Rightarrow> watcher" where
  "init_watcher pf mo =
     \<lparr>patch_filter = pf, makeopts = mo, pj = [], pw = [],
      baserepo = None, baseref = None, cfgurl = None, trace = []\<rparr>"

definition set_baseline :: "string \<Rightarrow> string \<Rightarrow> string option \<Rightarrow> watcher \<Rightarrow> watcher" where
  "set_baseline repo ref cfg s =
     s\<lparr>baserepo := Some repo, baseref := Some ref, cfgurl := cfg\<rparr>"

text \<open>\<^verbatim>\<open>max(a, b)\<close> of two values that may be \<^verbatim>\<open>None\<close>, as Python 2 orders them:
  \<^verbatim>\<open>None\<close> is below every number and every string. The test \<^verbatim>\<open>is None\<close> that
  follows the call in \<^verbatim>\<open>add_pw\<close> is reachable under this ordering only.\<close>

definition py2_max :: "'a::linorder option \<Rightarrow> 'a option \<Rightarrow> 'a option" where
  "py2_max a b =
     (case a of
        None \<Rightarrow> b
      | Some x \<Rightarrow> (case b of None \<Rightarrow> Some x | Some y \<Rightarrow> if x < y then Some y else Some x))"

text \<open>\<^verbatim>\<open>add_pw\<close>. The arguments \<^verbatim>\<open>apikey\<close> and \<^verbatim>\<open>skip\<close> are only handed to the
  constructor of the project interface and are left out; the constructors are
  collaborators (\<open>pw_new_v1\<close>, \<open>pw_new_v2\<close>).\<close>

definition add_pw ::
  "world \<Rightarrow> string \<Rightarrow> string \<Rightarrow> int option \<Rightarrow> bool \<Rightarrow> watcher \<Rightarrow> (error + unit) \<times> watcher"
where
  "add_pw W baseurl pname lpatch restapi s =
     (if restapi then
        (let p = pw_new_v2 W (trace s) baseurl pname lpatch;
             s0 = log_event (PwNewV2 baseurl pname lpatch) s
         in if lpatch = None then
              (let lcdate = db_get_last_checked_patch_date W (trace s0) baseurl (pw_project_id p);
                   s1 = log_event (DbGetLastCheckedPatchDate baseurl (pw_project_id p)) s0;
                   lpdate = db_get_last_pending_patch_date W (trace s1) baseurl (pw_project_id p);
                   s2 = log_event (DbGetLastPendingPatchDate baseurl (pw_project_id p)) s1;
                   since = py2_max lcdate lpdate
               in if since = None then (Inl (NeverTested baseurl pname), s2)
                  else (Inr (), s2\<lparr>pw := pw s2 @ [p\<lparr>pw_since := since\<rparr>]\<rparr>))
            else (Inr (), s0\<lparr>pw := pw s0 @ [p]\<rparr>))
      else
        (let p = pw_new_v1 W (trace s) baseurl pname lpatch;
             s0 = log_event (PwNewV1 baseurl pname lpatch) s
         in if lpatch = None then
              (let lcpatch = db_get_last_checked_patch W (trace s0) baseurl (pw_project_id p);
                   s1 = log_event (DbGetLastCheckedPatch baseurl (pw_project_id p)) s0;
                   lppatch = db_get_last_pending_patch W (trace s1) baseurl (pw_project_id p);
                   s2 = log_event (DbGetLastPendingPatch baseurl (pw_project_id p)) s1;
                   lpatch' = py2_max lcpatch lppatch
               in if lpatch' = None then (Inl (NeverTested baseurl pname), s2)
                  else (Inr (), s2\<lparr>pw := pw s2 @ [p\<lparr>pw_lastpatch := lpatch'\<rparr>]\<rparr>))
            else (Inr (), s0\<lparr>pw := pw s0 @ [p]\<rparr>)))"

section \<open>The filter gate\<close>

text \<open>\<^verbatim>\<open>" ".join(argv)\<close>.\<close>

fun join_sp :: "string list \<Rightarrow> string" where
  "join_sp [] = []"
| "join_sp [a] = a"
| "join_sp (a # b # bs) = a @ '' '' @ join_sp (b # bs)"

text \<open>The command line of the filter program for one series: the program, the cover
  letter behind \<^verbatim>\<open>--cover\<close> when the series has one, the mbox URLs of the patches.\<close>

definition filter_argv :: "string \<Rightarrow> series_summary \<Rightarrow> string list" where
  "filter_argv pf x =
     [pf] @ (case cover_letter x of Some url \<Rightarrow> [''--cover'', url] | None \<Rightarrow> [])
          @ patch_mbox_url_list x"

text \<open>The loop of \<^verbatim>\<open>filter_patchsets\<close> over the series, with the two lists it fills.\<close>

fun filter_loop ::
  "world \<Rightarrow> string \<Rightarrow> series_summary list \<Rightarrow> series_summary list \<Rightarrow> series_summary list
     \<Rightarrow> watcher \<Rightarrow> (error + series_summary list \<times> series_summary list) \<times> watcher"
where
  "filter_loop W pf [] ready dropped s = (Inr (ready, dropped), s)"
| "filter_loop W pf (x # xs) ready dropped s =
     (let argv = filter_argv pf x;
          cmd = join_sp argv;
          status = subprocess_call W (trace s) argv;
          s' = log_event (SubprocessCall argv) s
      in if status = 0 then filter_loop W pf xs (ready @ [x]) dropped s'
         else if status = 1 then filter_loop W pf xs ready (dropped @ [x]) s'
         else if status = 127 then (Inl (FilterFailed cmd), s')
         else if status < 0 then (Inl (FilterSignal cmd (- status)), s')
         else (Inl (FilterInvalidStatus cmd status), s'))"

text \<open>\<^verbatim>\<open>if self.patch_filter:\<close> holds for a string that is not empty.\<close>

definition filter_patchsets ::
  "world \<Rightarrow> series_summary list \<Rightarrow> watcher
     \<Rightarrow> (error + series_summary list \<times> series_summary list) \<times> watcher"
where
  "filter_patchsets W series_summary_list s =
     (case patch_filter s of
        Some pf \<Rightarrow>
          if pf \<noteq> [] then filter_loop W pf series_summary_list [] [] s
          else (Inr (series_summary_list, []), s)
      | None \<Rightarrow> (Inr (series_summary_list, []), s))"

section \<open>Patch info from a patch URL\<close>

definition LF :: char where
  "LF = CHR 0x0A"

definition is_digit :: "char \<Rightarrow> bool" where
  "is_digit c = (c \<in> set ''0123456789'')"

text \<open>\<^verbatim>\<open>re.match(r'(.*)/patch/(\d+)$', patch_url)\<close>, giving the two groups of a match.
  In Python \<^verbatim>\<open>$\<close> matches at the end of the string and also before a line feed that
  ends the string, \<^verbatim>\<open>.\<close> matches every character but the line feed, and \<^verbatim>\<open>\d\<close>
  is a digit from 0 to 9. The digits of a match are the longest run of digits at the end
  (before the final line feed, if any), since the character before them is a slash.\<close>

definition patch_url_match :: "string \<Rightarrow> (string \<times> string) option" where
  "patch_url_match url =
     (let body = (if url \<noteq> [] \<and> last url = LF then butlast url else url);
          ds = rev (takeWhile is_digit (rev body));
          pre = take (length body - length ds) body;
          base = take (length pre - 7) pre
      in if ds \<noteq> [] \<and> 7 \<le> length pre \<and> drop (length pre - 7) pre = ''/patch/''
            \<and> LF \<notin> set base
         then Some (base, ds) else None)"

text \<open>\<^verbatim>\<open>int(s)\<close> for a string of decimal digits.\<close>

definition py_int :: "string \<Rightarrow> int" where
  "py_int ds = foldl (\<lambda>a c. 10 * a + (of_char c - 48)) 0 ds"

text \<open>\<^verbatim>\<open>s.replace(' ', 'T')\<close>.\<close>

definition replace_space_T :: "string \<Rightarrow> string" where
  "replace_space_T d = map (\<lambda>c. if c = CHR '' '' then CHR ''T'' else c) d"

definition get_patch_info_from_url ::
  "world \<Rightarrow> pw_project option \<Rightarrow> string \<Rightarrow> watcher \<Rightarrow> (error + patch_info) \<times> watcher"
where
  "get_patch_info_from_url W interface patch_url s =
     (case patch_url_match patch_url of
        None \<Rightarrow> (Inl (MalformedPatchUrl patch_url), s)
      | Some (baseurl, ds) \<Rightarrow>
          (let patch_id = py_int ds
           in case interface of
                None \<Rightarrow> (Inl AttributeError, s)
              | Some cpw \<Rightarrow>
                  (let patch = pw_get_patch_by_id W (trace s) cpw patch_id;
                       s' = log_event (PwGetPatchById cpw patch_id) s;
                       project_id = (if pw_is_v2 cpw then pr_project patch
                                     else pr_project_id patch)
                   in (Inr (patch_id, pr_name patch, patch_url, baseurl, project_id,
                            replace_space_T (pr_date patch)), s'))))"

text \<open>The loop that fills \<^verbatim>\<open>patches\<close> from a list of patch URLs; \<^verbatim>\<open>check_patchwork\<close>
  and \<^verbatim>\<open>check_pending\<close> both have it.\<close>

fun resolve_patches ::
  "world \<Rightarrow> pw_project option \<Rightarrow> string list \<Rightarrow> patch_info list \<Rightarrow> watcher
     \<Rightarrow> (error + patch_info list) \<times> watcher"
where
  "resolve_patches W cpw [] patches s = (Inr patches, s)"
| "resolve_patches W cpw (u # us) patches s =
     (case get_patch_info_from_url W cpw u s of
        (Inl e, s') \<Rightarrow> (Inl e, s')
      | (Inr p, s') \<Rightarrow> resolve_patches W cpw us (patches @ [p]) s')"

section \<open>Submission\<close>


text \<open>The arguments of the build of a series on the stable commit.\<close>

definition series_build_args :: "watcher \<Rightarrow> string \<Rightarrow> series_summary \<Rightarrow> build_args" where
  "series_build_args s stablecommit x =
     \<lparr>b_baserepo = baserepo s, b_ref = Some stablecommit, b_baseconfig = cfgurl s,
      b_makeopts = makeopts s, b_message_id = Some (message_id x),
      b_subject = Some (subject x), b_emails = Some (email_addr_set x),
      b_patch_url_list = Some (patch_url_list x)\<rparr>"

text \<open>The loop of \<^verbatim>\<open>check_patchwork\<close> over the dropped series.\<close>

fun commit_dropped ::
  "world \<Rightarrow> pw_project \<Rightarrow> series_summary list \<Rightarrow> watcher \<Rightarrow> (error + unit) \<times> watcher"
where
  "commit_dropped W cpw [] s = (Inr (), s)"
| "commit_dropped W cpw (x # xs) s =
     (case resolve_patches W (Some cpw) (patch_url_list x) [] s of
        (Inl e, s') \<Rightarrow> (Inl e, s')
      | (Inr patches, s') \<Rightarrow> commit_dropped W cpw xs (log_event (DbCommitSeries patches) s'))"

text \<open>The loop of \<^verbatim>\<open>check_patchwork\<close> over \<^verbatim>\<open>series_list\<close>.\<close>

fun submit_series ::
  "world \<Rightarrow> string \<Rightarrow> pw_project \<Rightarrow> series_summary list \<Rightarrow> watcher \<Rightarrow> watcher"
where
  "submit_series W stablecommit cpw [] s = s"
| "submit_series W stablecommit cpw (x # xs) s =
     (let args = series_build_args s stablecommit x;
          bid = jk_build W (trace s) args;
          s1 = log_event (JkBuild args) s;
          s2 = log_event (PjAppend (PATCHWORK, bid, Some cpw))
                 (s1\<lparr>pj := pj s1 @ [(PATCHWORK, bid, Some cpw)]\<rparr>);
          s3 = log_event (DbSetPatchsetPending (pw_baseurl cpw) (pw_project_id cpw)
                            (patch_info_list x)) s2
      in submit_series W stablecommit cpw xs s3)"

text \<open>The body of the loop of \<^verbatim>\<open>check_patchwork\<close> over the Patchwork interfaces: one
  batch of series.\<close>

definition check_patchwork_project ::
  "world \<Rightarrow> string \<Rightarrow> pw_project \<Rightarrow> watcher \<Rightarrow> (error + unit) \<times> watcher"
where
  "check_patchwork_project W stablecommit cpw s =
     (let new_series = pw_get_new_patchsets W (trace s) cpw;
          s1 = log_event (PwGetNewPatchsets cpw) s
      in case filter_patchsets W new_series s1 of
           (Inl e, s2) \<Rightarrow> (Inl e, s2)
         | (Inr (series_ready, series_dropped), s2) \<Rightarrow>
             (case commit_dropped W cpw series_dropped s2 of
                (Inl e, s3) \<Rightarrow> (Inl e, s3)
              | (Inr u, s3) \<Rightarrow>
                  (let expired = db_get_expired_pending_patches W (trace s3)
                                   (pw_baseurl cpw) (pw_project_id cpw) 43200;
                       s4 = log_event (DbGetExpiredPendingPatches
                                         (pw_baseurl cpw) (pw_project_id cpw) 43200) s3;
                       retry = pw_get_patchsets W (trace s4) cpw expired;
                       s5 = log_event (PwGetPatchsets cpw expired) s4;
                       series_list = series_ready @ retry
                   in (Inr (), submit_series W stablecommit cpw series_list s5))))"

fun check_patchwork_loop ::
  "world \<Rightarrow> string \<Rightarrow> pw_project list \<Rightarrow> watcher \<Rightarrow> (error + unit) \<times> watcher"
where
  "check_patchwork_loop W stablecommit [] s = (Inr (), s)"
| "check_patchwork_loop W stablecommit (cpw # rest) s =
     (case check_patchwork_project W stablecommit cpw s of
        (Inl e, s') \<Rightarrow> (Inl e, s')
      | (Inr u, s') \<Rightarrow> check_patchwork_loop W stablecommit rest s')"

text \<open>\<^verbatim>\<open>if not stablecommit\<close> holds for \<^verbatim>\<open>None\<close> and for the empty string.\<close>

definition check_patchwork :: "world \<Rightarrow> watcher \<Rightarrow> (error + unit) \<times> watcher" where
  "check_patchwork W s =
     (let r = db_get_stable W (trace s) (baserepo s);
          s1 = log_event (DbGetStable (baserepo s)) s
      in case r of
           None \<Rightarrow> (Inl (NoStableBaseline (baserepo s)), s1)
         | Some stablecommit \<Rightarrow>
             if stablecommit = [] then (Inl (NoStableBaseline (baserepo s)), s1)
             else check_patchwork_loop W stablecommit (pw s1) s1)"

section \<open>Reconciliation\<close>

text \<open>The body of the loop of \<^verbatim>\<open>check_pending\<close>, for the entry the iteration is at.
  \<^verbatim>\<open>self.pj.remove(x)\<close> removes the first entry equal to \<^verbatim>\<open>x\<close>.\<close>

definition check_pending_body :: "world \<Rightarrow> pjob \<Rightarrow> watcher \<Rightarrow> (error + unit) \<times> watcher" where
  "check_pending_body W entry s =
     (case entry of (pjt, bid, cpw) \<Rightarrow>
        (let complete = jk_is_build_complete W (trace s) bid;
             s0 = log_event (JkIsBuildComplete bid) s
         in if complete then
              (let bres = jk_get_result W (trace s0) bid;
                   s1 = log_event (JkGetResult bid) s0;
                   rurl = jk_get_result_url W (trace s1) bid;
                   s2 = log_event (JkGetResultUrl bid) s1;
                   basehash = jk_get_base_hash W (trace s2) bid;
                   s3 = log_event (JkGetBaseHash bid) s2;
                   basedate = jk_get_base_commitdate W (trace s3) bid;
                   s4 = log_event (JkGetBaseCommitdate bid) s3;
                   s5 = log_event (PjRemove (pjt, bid, cpw))
                          (s4\<lparr>pj := remove1 (pjt, bid, cpw) (pj s4)\<rparr>)
               in if bres = ERROR then (Inr (), s5)
                  else if pjt = BASELINE then
                    (Inr (), log_event (DbUpdateBaseline (baserepo s5) basehash basedate
                                          bres bid) s5)
                  else if pjt = PATCHWORK then
                    (let url_list = jk_get_patch_url_list W (trace s5) bid;
                         s6 = log_event (JkGetPatchUrlList bid) s5
                     in case resolve_patches W cpw url_list [] s6 of
                          (Inl e, s7) \<Rightarrow> (Inl e, s7)
                        | (Inr patches, s7) \<Rightarrow>
                            (Inr (), log_event (DbCommitTested patches) s7))
                  else (Inl (UnknownJobType pjt), s5))
            else (Inr (), s0)))"

text \<open>\<^verbatim>\<open>for (pjt, bid, cpw) in self.pj:\<close> with the body removing entries of the list it
  iterates over. Python's list iterator keeps an index into the list: each round it
  stops if the index has reached the current length of the list, and otherwise takes
  the entry at the index and moves the index one further. \<open>check_pending_from W i s\<close> is
  the loop from index \<open>i\<close> on.\<close>

function check_pending_from :: "world \<Rightarrow> nat \<Rightarrow> watcher \<Rightarrow> (error + unit) \<times> watcher" where
  "check_pending_from W i s =
     (if i < length (pj s) then
        (case check_pending_body W (pj s ! i) s of
           (Inl e, s') \<Rightarrow> (Inl e, s')
         | (Inr u, s') \<Rightarrow> check_pending_from W (Suc i) s')
      else (Inr (), s))"
  by pat_completeness auto
termination
proof (relation "measure (\<lambda>(W, i, s). length (pj s) - i)")
  show "wf (measure (\<lambda>(W, i, s). length (pj s) - i))" by simp
next
  fix W i s x s' u
  assume lt: "i < length (pj s)"
    and b: "(x, s') = check_pending_body W (pj s ! i) s"
  have url: "pj t' = pj t" if "get_patch_info_from_url W c v t = (r, t')" for c v t r t'
    using that
    by (auto simp: get_patch_info_from_url_def Let_def log_event_def
        split: option.splits prod.splits)
  have urls: "pj t' = pj t" if "resolve_patches W c vs acc t = (r, t')" for c vs acc t r t'
    using that
  proof (induction vs arbitrary: acc t)
    case Nil
    then show ?case by simp
  next
    case (Cons v vs)
    obtain r1 t1 where g: "get_patch_info_from_url W c v t = (r1, t1)"
      by (cases "get_patch_info_from_url W c v t")
    have p1: "pj t1 = pj t" using g by (rule url)
    show ?case
    proof (cases r1)
      case (Inl e)
      with Cons.prems g p1 show ?thesis by simp
    next
      case (Inr p)
      with Cons.prems g have "resolve_patches W c vs (acc @ [p]) t1 = (r, t')" by simp
      then have "pj t' = pj t1" by (rule Cons.IH)
      with p1 show ?thesis by simp
    qed
  qed
  have "pj s' = pj s \<or> pj s' = remove1 (pj s ! i) (pj s)"
    using b [symmetric]
    by (cases "pj s ! i")
       (auto simp: check_pending_body_def Let_def log_event_def
          split: if_splits prod.splits sum.splits dest!: urls)
  then have "length (pj s') \<le> length (pj s)"
    by (auto simp: length_remove1)
  with lt show "((W, Suc i, s'), (W, i, s)) \<in> measure (\<lambda>(W, i, s). length (pj s) - i)"
    by simp
qed

definition check_pending :: "world \<Rightarrow> watcher \<Rightarrow> (error + unit) \<times> watcher" where
  "check_pending W s = check_pending_from W 0 s"

declare check_pending_from.simps [simp del]

section \<open>Sample inputs\<close>

text \<open>A tracker project at \<^verbatim>\<open>pw\<close> with two new series: patches 101 and 102 behind a
  cover letter, and patch 103 alone. The sample filter program rejects the series of
  patch 103 and accepts every other one. The sample CI backend numbers its builds: a
  new build gets the number after the largest one submitted before; every build is
  complete and successful.\<close>

definition series_a :: series_summary where
  "series_a =
     \<lparr>cover_letter = Some ''pw/cover/100/mbox'', message_id = ''a@x'', subject = ''a'',
      email_addr_set = [''dev@x''],
      patch_mbox_url_list = [''pw/patch/101/mbox'', ''pw/patch/102/mbox''],
      patch_url_list = [''pw/patch/101'', ''pw/patch/102''],
      patch_info_list = [(101, ''p'', ''pw/patch/101'', ''pw'', 1, ''2018-01-02T03:04:05''),
                         (102, ''p'', ''pw/patch/102'', ''pw'', 1, ''2018-01-02T03:04:05'')]\<rparr>"

definition series_b :: series_summary where
  "series_b =
     \<lparr>cover_letter = None, message_id = ''b@x'', subject = ''b'',
      email_addr_set = [''dev@x''],
      patch_mbox_url_list = [''pw/patch/103/mbox''],
      patch_url_list = [''pw/patch/103''],
      patch_info_list = [(103, ''p'', ''pw/patch/103'', ''pw'', 1, ''2018-01-02T03:04:05'')]\<rparr>"

definition demo_pw :: pw_project where
  "demo_pw = \<lparr>pw_is_v2 = False, pw_baseurl = ''pw'', pw_pname = ''k'', pw_project_id = 1,
              pw_since = None, pw_lastpatch = Some 100\<rparr>"

text \<open>The build numbers that were entered into \<^verbatim>\<open>self.pj\<close>, in the order of the
  history.\<close>

fun appended_bids :: "event list \<Rightarrow> int list" where
  "appended_bids [] = []"
| "appended_bids (PjAppend (t, b, c) # es) = b # appended_bids es"
| "appended_bids (e # es) = appended_bids es"

definition demo_world :: world where
  "demo_world =
     \<lparr>subprocess_call = (\<lambda>tr argv. if ''pw/patch/103/mbox'' \<in> set argv then 1 else 0),
      pw_new_v1 = (\<lambda>tr b n l. \<lparr>pw_is_v2 = False, pw_baseurl = b, pw_pname = n,
                     pw_project_id = 1, pw_since = None, pw_lastpatch = l\<rparr>),
      pw_new_v2 = (\<lambda>tr b n l. \<lparr>pw_is_v2 = True, pw_baseurl = b, pw_pname = n,
                     pw_project_id = 1, pw_since = None, pw_lastpatch = l\<rparr>),
      pw_get_new_patchsets = (\<lambda>tr p. [series_a, series_b]),
      pw_get_patchsets = (\<lambda>tr p infos. []),
      pw_get_patch_by_id = (\<lambda>tr p i. \<lparr>pr_name = ''p'', pr_date = ''2018-01-02 03:04:05'',
                              pr_project = 1, pr_project_id = 1\<rparr>),
      db_get_stable = (\<lambda>tr r. Some ''c0de''),
      db_get_last_checked_patch = (\<lambda>tr b p. Some 100),
      db_get_last_pending_patch = (\<lambda>tr b p. Some 103),
      db_get_last_checked_patch_date = (\<lambda>tr b p. None),
      db_get_last_pending_patch_date = (\<lambda>tr b p. Some ''2018-01-02T03:04:05''),
      db_get_expired_pending_patches = (\<lambda>tr b p a. []),
      jk_build = (\<lambda>tr a. fold max (appended_bids tr) 0 + 1),
      jk_is_build_complete = (\<lambda>tr b. True),
      jk_get_result = (\<lambda>tr b. SUCCESS),
      jk_get_result_url = (\<lambda>tr b. ''ci/result''),
      jk_get_base_hash = (\<lambda>tr b. ''c0de''),
      jk_get_base_commitdate = (\<lambda>tr b. ''1514862245''),
      jk_get_patch_url_list = (\<lambda>tr b. [''pw/patch/101'', ''pw/patch/102''])\<rparr>"

definition demo_watcher :: watcher where
  "demo_watcher =
     (set_baseline ''git/linux'' ''master'' None (init_watcher (Some ''filter.sh'') None))
       \<lparr>pw := [demo_pw]\<rparr>"

section \<open>Notions the statements use\<close>

text \<open>The exit statuses the filter program gives when it is run on each series of a
  list in turn, the first run after the history \<open>tr\<close>.\<close>

fun exit_statuses :: "world \<Rightarrow> string \<Rightarrow> event list \<Rightarrow> series_summary list \<Rightarrow> int list" where
  "exit_statuses W pf tr [] = []"
| "exit_statuses W pf tr (x # xs) =
     subprocess_call W tr (filter_argv pf x)
       # exit_statuses W pf (tr @ [SubprocessCall (filter_argv pf x)]) xs"

text \<open>The exception \<^verbatim>\<open>filter_patchsets\<close> raises on an exit status other than 0 and 1.\<close>

abbreviation (input) filter_error :: "string \<Rightarrow> int \<Rightarrow> error" where
  "filter_error cmd st \<equiv>
     (if st = 127 then FilterFailed cmd
      else if st < 0 then FilterSignal cmd (- st)
      else FilterInvalidStatus cmd st)"

text \<open>The value of a string of decimal digits, digit by digit.\<close>

definition digit_value :: "char \<Rightarrow> int" where
  "digit_value c = of_char c - 48"

text \<open>The events by kind: questions to a collaborator (and runs of the filter program),
  the four writes to the store, build submissions, changes of \<^verbatim>\<open>self.pj\<close>.\<close>

datatype kind =
  Query | Commit_Series | Set_Pending | Update_Baseline | Commit_Tested
  | Build | Pj_Append | Pj_Remove

fun kind_of :: "event \<Rightarrow> kind" where
  "kind_of (SubprocessCall a) = Query"
| "kind_of (PwNewV1 b n l) = Query"
| "kind_of (PwNewV2 b n l) = Query"
| "kind_of (PwGetNewPatchsets p) = Query"
| "kind_of (PwGetPatchsets p i) = Query"
| "kind_of (PwGetPatchById p i) = Query"
| "kind_of (DbGetStable r) = Query"
| "kind_of (DbGetLastCheckedPatch b p) = Query"
| "kind_of (DbGetLastPendingPatch b p) = Query"
| "kind_of (DbGetLastCheckedPatchDate b p) = Query"
| "kind_of (DbGetLastPendingPatchDate b p) = Query"
| "kind_of (DbGetExpiredPendingPatches b p a) = Query"
| "kind_of (DbCommitSeries ps) = Commit_Series"
| "kind_of (DbSetPatchsetPending b p ps) = Set_Pending"
| "kind_of (DbUpdateBaseline r h d t i) = Update_Baseline"
| "kind_of (DbCommitTested ps) = Commit_Tested"
| "kind_of (JkBuild a) = Build"
| "kind_of (JkIsBuildComplete i) = Query"
| "kind_of (JkGetResult i) = Query"
| "kind_of (JkGetResultUrl i) = Query"
| "kind_of (JkGetBaseHash i) = Query"
| "kind_of (JkGetBaseCommitdate i) = Query"
| "kind_of (JkGetPatchUrlList i) = Query"
| "kind_of (PjAppend j) = Pj_Append"
| "kind_of (PjRemove j) = Pj_Remove"

definition is_store_mutation :: "event \<Rightarrow> bool" where
  "is_store_mutation e =
     (kind_of e = Commit_Series \<or> kind_of e = Set_Pending
      \<or> kind_of e = Update_Baseline \<or> kind_of e = Commit_Tested)"

text \<open>The URLs the regular expression of \<^verbatim>\<open>get_patch_info_from_url\<close> matches: a base
  without a line feed, \<^verbatim>\<open>/patch/\<close>, one or more decimal digits, and possibly one line
  feed at the very end.\<close>

definition accepted_patch_url :: "string \<Rightarrow> bool" where
  "accepted_patch_url url \<longleftrightarrow>
     (\<exists>b d. d \<noteq> [] \<and> (\<forall>c \<in> set d. is_digit c) \<and> LF \<notin> set b
            \<and> (url = b @ ''/patch/'' @ d \<or> url = b @ ''/patch/'' @ d @ [LF]))"

text \<open>The six events of a completed build, up to the removal of its entry.\<close>

definition completion_events :: "pjob \<Rightarrow> event list" where
  "completion_events entry =
     (case entry of (pjt, bid, cpw) \<Rightarrow>
        [JkIsBuildComplete bid, JkGetResult bid, JkGetResultUrl bid, JkGetBaseHash bid,
         JkGetBaseCommitdate bid, PjRemove (pjt, bid, cpw)])"

text \<open>From the first watcher to the second the history has only grown, and by no write
  to the store.\<close>

definition no_store_mutation :: "watcher \<Rightarrow> watcher \<Rightarrow> bool" where
  "no_store_mutation s s' \<longleftrightarrow>
     (\<exists>evs. trace s' = trace s @ evs \<and> (\<forall>e \<in> set evs. \<not> is_store_mutation e))"

text \<open>The batches of patch info tuples committed as dropped series, in the order of the
  history, and the URL of a patch info tuple.\<close>

fun committed_series :: "event list \<Rightarrow> patch_info list list" where
  "committed_series [] = []"
| "committed_series (DbCommitSeries ps # es) = ps # committed_series es"
| "committed_series (e # es) = committed_series es"

definition patch_url_of :: "patch_info \<Rightarrow> string" where
  "patch_url_of p = fst (snd (snd p))"

text \<open>The three events of the submission of a series \<open>x\<close> of the project \<open>cpw\<close> after the
  history \<open>hist\<close>: the build of the stable commit with the message id, the subject, the
  e-mail addresses and the patch URLs of \<open>x\<close>; the entry of the build number the CI backend
  returned for it into \<^verbatim>\<open>self.pj\<close>; the pending mark for the patches of \<open>x\<close>.\<close>

definition submission ::
  "world \<Rightarrow> watcher \<Rightarrow> string \<Rightarrow> pw_project \<Rightarrow> event list \<Rightarrow> series_summary \<Rightarrow> event list"
where
  "submission W s stablecommit cpw hist x =
     [JkBuild \<lparr>b_baserepo = baserepo s, b_ref = Some stablecommit, b_baseconfig = cfgurl s,
               b_makeopts = makeopts s, b_message_id = Some (message_id x),
               b_subject = Some (subject x), b_emails = Some (email_addr_set x),
               b_patch_url_list = Some (patch_url_list x)\<rparr>,
      PjAppend (PATCHWORK,
                jk_build W hist
                  \<lparr>b_baserepo = baserepo s, b_ref = Some stablecommit, b_baseconfig = cfgurl s,
                   b_makeopts = makeopts s, b_message_id = Some (message_id x),
                   b_subject = Some (subject x), b_emails = Some (email_addr_set x),
                   b_patch_url_list = Some (patch_url_list x)\<rparr>,
                Some cpw),
      DbSetPatchsetPending (pw_baseurl cpw) (pw_project_id cpw) (patch_info_list x)]"

text \<open>In the piece \<open>pre\<close> of the history, which starts after \<open>tr\<close>, the tracker project
  \<open>cpw\<close> was asked for series and \<open>x\<close> is one of the series it answered with.\<close>

definition offered ::
  "world \<Rightarrow> pw_project \<Rightarrow> event list \<Rightarrow> event list \<Rightarrow> series_summary \<Rightarrow> bool"
where
  "offered W cpw tr pre x \<longleftrightarrow>
     (\<exists>h rest. pre = h @ PwGetNewPatchsets cpw # rest
               \<and> x \<in> set (pw_get_new_patchsets W (tr @ h) cpw))
     \<or> (\<exists>h infos rest. pre = h @ PwGetPatchsets cpw infos # rest
                       \<and> x \<in> set (pw_get_patchsets W (tr @ h) cpw infos))"

text \<open>A property of a piece \<open>evs\<close> of the history that starts after the history \<open>tr\<close>:
  every \<^verbatim>\<open>set_patchset_pending\<close> in \<open>evs\<close> is the last of the three events of the
  submission of a series \<open>x\<close> of a registered project, and \<open>x\<close> is a series that project
  answered with earlier in \<open>evs\<close>.\<close>

definition pending_marks_follow_builds ::
  "world \<Rightarrow> watcher \<Rightarrow> string \<Rightarrow> event list \<Rightarrow> event list \<Rightarrow> bool"
where
  "pending_marks_follow_builds W s stablecommit tr evs \<longleftrightarrow>
     (\<forall>pre b p infos post.
        evs = pre @ DbSetPatchsetPending b p infos # post \<longrightarrow>
        (\<exists>pre' x cpw.
           pre @ [DbSetPatchsetPending b p infos]
             = pre' @ submission W s stablecommit cpw (tr @ pre') x
           \<and> cpw \<in> set (pw s) \<and> offered W cpw tr pre' x))"




section \<open>Basic facts\<close>

text \<open>What the body of the loop of \<^verbatim>\<open>check_pending\<close> does to \<^verbatim>\<open>self.pj\<close>: nothing, or
  the removal of the entry.\<close>

lemma trace_log_event: "trace (log_event e s) = trace s @ [e]"
  by (simp add: log_event_def)

lemma pj_log_event: "pj (log_event e s) = pj s"
  by (simp add: log_event_def)

lemma pj_get_patch_info_from_url:
  "get_patch_info_from_url W c u s = (r, s') \<Longrightarrow> pj s' = pj s"
  by (auto simp: get_patch_info_from_url_def Let_def pj_log_event split: option.splits prod.splits)

lemma pj_resolve_patches:
  "resolve_patches W c us acc s = (r, s') \<Longrightarrow> pj s' = pj s"
proof (induction us arbitrary: acc s)
  case Nil
  then show ?case by simp
next
  case (Cons u us)
  obtain r1 s1 where g: "get_patch_info_from_url W c u s = (r1, s1)"
    by (cases "get_patch_info_from_url W c u s")
  have p1: "pj s1 = pj s" using g by (rule pj_get_patch_info_from_url)
  show ?case
  proof (cases r1)
    case (Inl e)
    with Cons.prems g p1 show ?thesis by simp
  next
    case (Inr p)
    with Cons.prems g have "resolve_patches W c us (acc @ [p]) s1 = (r, s')" by simp
    then have "pj s' = pj s1" by (rule Cons.IH)
    with p1 show ?thesis by simp
  qed
qed

lemma pj_check_pending_body:
  "check_pending_body W e s = (r, s') \<Longrightarrow> pj s' = pj s \<or> pj s' = remove1 e (pj s)"
  by (cases e) (auto simp: check_pending_body_def Let_def pj_log_event
      split: if_splits prod.splits sum.splits dest!: pj_resolve_patches)

lemma length_pj_check_pending_body:
  "check_pending_body W e s = (r, s') \<Longrightarrow> length (pj s') \<le> length (pj s)"
  by (drule pj_check_pending_body) (auto simp: length_remove1)

section \<open>The baseline gate\<close>

text \<open>
  Claim C5. If the store has no stable commit for the base repository (\<^verbatim>\<open>get_stable\<close>
  answers \<^verbatim>\<open>None\<close>, or the empty string), \<^verbatim>\<open>check_patchwork\<close> raises the "no known
  stable baseline" exception, and the only thing it has done by then is to ask the store
  for the stable commit: the watcher is as it was, and the history has grown by that one
  question, so no series was fetched, no filter run, no build submitted and nothing
  written to the store.
\<close>

theorem check_patchwork_baseline_gate:
  assumes "db_get_stable W (trace s) (baserepo s) = None
           \<or> db_get_stable W (trace s) (baserepo s) = Some []"
  shows "check_patchwork W s =
           (Inl (NoStableBaseline (baserepo s)),
            s\<lparr>trace := trace s @ [DbGetStable (baserepo s)]\<rparr>)"
  using assms by (auto simp: check_patchwork_def Let_def log_event_def)

theorem check_patchwork_baseline_gate_witness:
  "db_get_stable (demo_world\<lparr>db_get_stable := \<lambda>tr r. None\<rparr>) (trace demo_watcher)
      (baserepo demo_watcher) = None
   \<and> check_patchwork (demo_world\<lparr>db_get_stable := \<lambda>tr r. None\<rparr>) demo_watcher =
       (Inl (NoStableBaseline (Some ''git/linux'')),
        demo_watcher\<lparr>trace := [DbGetStable (Some ''git/linux'')]\<rparr>)"
  using check_patchwork_baseline_gate
          [of "demo_world\<lparr>db_get_stable := \<lambda>tr r. None\<rparr>" demo_watcher]
  by (simp add: demo_world_def demo_watcher_def set_baseline_def init_watcher_def)

section \<open>The filter gate: exit statuses\<close>

lemma length_exit_statuses [simp]: "length (exit_statuses W pf tr xs) = length xs"
  by (induction xs arbitrary: tr) auto

lemma filter_loop_all_decided:
  "\<forall>st \<in> set (exit_statuses W pf (trace s) xs). st = 0 \<or> st = 1 \<Longrightarrow>
   filter_loop W pf xs ready dropped s =
     (Inr (ready @ map fst (filter (\<lambda>p. snd p = 0) (zip xs (exit_statuses W pf (trace s) xs))),
           dropped @ map fst (filter (\<lambda>p. snd p = 1) (zip xs (exit_statuses W pf (trace s) xs)))),
      s\<lparr>trace := trace s @ map (\<lambda>x. SubprocessCall (filter_argv pf x)) xs\<rparr>)"
proof (induction xs arbitrary: ready dropped s)
  case Nil
  show ?case by simp
next
  case (Cons x xs)
  let ?s' = "log_event (SubprocessCall (filter_argv pf x)) s"
  have tr: "trace ?s' = trace s @ [SubprocessCall (filter_argv pf x)]"
    by (simp add: log_event_def)
  have rest: "\<forall>st \<in> set (exit_statuses W pf (trace ?s') xs). st = 0 \<or> st = 1"
    using Cons.prems by (simp add: tr)
  have hd: "subprocess_call W (trace s) (filter_argv pf x) = 0
            \<or> subprocess_call W (trace s) (filter_argv pf x) = 1"
    using Cons.prems by simp
  note IH = Cons.IH [OF rest]
  from hd show ?case
  proof
    assume z: "subprocess_call W (trace s) (filter_argv pf x) = 0"
    then show ?thesis
      by (simp add: Let_def IH tr) (simp add: log_event_def)
  next
    assume o: "subprocess_call W (trace s) (filter_argv pf x) = 1"
    then show ?thesis
      by (simp add: Let_def IH tr) (simp add: log_event_def)
  qed
qed

lemma filter_loop_first_undecided:
  "k < length xs \<Longrightarrow>
   \<forall>j<k. exit_statuses W pf (trace s) xs ! j = 0 \<or> exit_statuses W pf (trace s) xs ! j = 1 \<Longrightarrow>
   exit_statuses W pf (trace s) xs ! k \<noteq> 0 \<Longrightarrow>
   exit_statuses W pf (trace s) xs ! k \<noteq> 1 \<Longrightarrow>
   filter_loop W pf xs ready dropped s =
     (Inl (filter_error (join_sp (filter_argv pf (xs ! k))) (exit_statuses W pf (trace s) xs ! k)),
      s\<lparr>trace := trace s @ map (\<lambda>x. SubprocessCall (filter_argv pf x)) (take (Suc k) xs)\<rparr>)"
proof (induction xs arbitrary: k ready dropped s)
  case Nil
  then show ?case by simp
next
  case (Cons x xs)
  let ?s' = "log_event (SubprocessCall (filter_argv pf x)) s"
  have tr: "trace ?s' = trace s @ [SubprocessCall (filter_argv pf x)]"
    by (simp add: log_event_def)
  show ?case
  proof (cases k)
    case 0
    with Cons.prems show ?thesis
      by (simp add: Let_def log_event_def)
  next
    case (Suc k')
    have hd: "subprocess_call W (trace s) (filter_argv pf x) = 0
              \<or> subprocess_call W (trace s) (filter_argv pf x) = 1"
      using Cons.prems(2) Suc by (auto dest: spec [of _ 0])
    have k': "k' < length xs" using Cons.prems(1) Suc by simp
    have before: "\<forall>j<k'. exit_statuses W pf (trace ?s') xs ! j = 0
                        \<or> exit_statuses W pf (trace ?s') xs ! j = 1"
    proof (intro allI impI)
      fix j assume "j < k'"
      then have "Suc j < k" using Suc by simp
      with Cons.prems(2) show "exit_statuses W pf (trace ?s') xs ! j = 0
                        \<or> exit_statuses W pf (trace ?s') xs ! j = 1"
        by (auto simp: tr dest: spec [of _ "Suc j"])
    qed
    have n0: "exit_statuses W pf (trace ?s') xs ! k' \<noteq> 0"
      and n1: "exit_statuses W pf (trace ?s') xs ! k' \<noteq> 1"
      using Cons.prems(3,4) Suc by (simp_all add: tr)
    note IH = Cons.IH [OF k' before n0 n1]
    from hd show ?thesis
    proof
      assume "subprocess_call W (trace s) (filter_argv pf x) = 0"
      then show ?thesis using Suc
        by (simp add: Let_def IH tr) (simp add: log_event_def)
    next
      assume "subprocess_call W (trace s) (filter_argv pf x) = 1"
      then show ?thesis using Suc
        by (simp add: Let_def IH tr) (simp add: log_event_def)
    qed
  qed
qed

text \<open>
  Claim C1. With no filter program configured (\<^verbatim>\<open>None\<close> or the empty string), every
  series is ready, none is dropped and nothing is run. With a filter program: if every
  run exits with 0 or 1, the ready series are exactly those with exit status 0 and the
  dropped series exactly those with exit status 1, both in the order of the input, and
  the program was run once on each series; if the run on the series at position \<open>k\<close> is
  the first to exit with another status, the whole call raises (127: the command failed;
  negative: terminated by that signal; any other value: invalid status), nothing is
  returned as ready or dropped, and the program is not run on the later series. For a
  batch of one series the exit codes 0, 1, 2, 126, 127, -9 give ready, dropped, and four
  times an exception.
\<close>

theorem filter_patchsets_classification:
  "(patch_filter s = None \<or> patch_filter s = Some [] \<longrightarrow>
      filter_patchsets W xs s = (Inr (xs, []), s))
   \<and> (patch_filter s = Some pf \<and> pf \<noteq> []
        \<and> (\<forall>st \<in> set (exit_statuses W pf (trace s) xs). st = 0 \<or> st = 1) \<longrightarrow>
      filter_patchsets W xs s =
        (Inr (map fst (filter (\<lambda>p. snd p = 0) (zip xs (exit_statuses W pf (trace s) xs))),
              map fst (filter (\<lambda>p. snd p = 1) (zip xs (exit_statuses W pf (trace s) xs)))),
         s\<lparr>trace := trace s @ map (\<lambda>x. SubprocessCall (filter_argv pf x)) xs\<rparr>))
   \<and> (patch_filter s = Some pf \<and> pf \<noteq> [] \<and> k < length xs
        \<and> (\<forall>j<k. exit_statuses W pf (trace s) xs ! j = 0
                  \<or> exit_statuses W pf (trace s) xs ! j = 1)
        \<and> exit_statuses W pf (trace s) xs ! k \<noteq> 0
        \<and> exit_statuses W pf (trace s) xs ! k \<noteq> 1 \<longrightarrow>
      filter_patchsets W xs s =
        (Inl (filter_error (join_sp (filter_argv pf (xs ! k)))
                (exit_statuses W pf (trace s) xs ! k)),
         s\<lparr>trace := trace s @ map (\<lambda>x. SubprocessCall (filter_argv pf x)) (take (Suc k) xs)\<rparr>))
   \<and> (patch_filter s = Some pf \<and> pf \<noteq> [] \<longrightarrow>
        (subprocess_call W (trace s) (filter_argv pf x) = 0 \<longrightarrow>
           fst (filter_patchsets W [x] s) = Inr ([x], []))
      \<and> (subprocess_call W (trace s) (filter_argv pf x) = 1 \<longrightarrow>
           fst (filter_patchsets W [x] s) = Inr ([], [x]))
      \<and> (subprocess_call W (trace s) (filter_argv pf x) = 2 \<longrightarrow>
           fst (filter_patchsets W [x] s)
             = Inl (FilterInvalidStatus (join_sp (filter_argv pf x)) 2))
      \<and> (subprocess_call W (trace s) (filter_argv pf x) = 126 \<longrightarrow>
           fst (filter_patchsets W [x] s)
             = Inl (FilterInvalidStatus (join_sp (filter_argv pf x)) 126))
      \<and> (subprocess_call W (trace s) (filter_argv pf x) = 127 \<longrightarrow>
           fst (filter_patchsets W [x] s) = Inl (FilterFailed (join_sp (filter_argv pf x))))
      \<and> (subprocess_call W (trace s) (filter_argv pf x) = - 9 \<longrightarrow>
           fst (filter_patchsets W [x] s)
             = Inl (FilterSignal (join_sp (filter_argv pf x)) 9)))"
proof (intro conjI impI)
  assume "patch_filter s = None \<or> patch_filter s = Some []"
  then show "filter_patchsets W xs s = (Inr (xs, []), s)"
    by (auto simp: filter_patchsets_def)
next
  assume a: "patch_filter s = Some pf \<and> pf \<noteq> []
        \<and> (\<forall>st \<in> set (exit_statuses W pf (trace s) xs). st = 0 \<or> st = 1)"
  then have "\<forall>st \<in> set (exit_statuses W pf (trace s) xs). st = 0 \<or> st = 1" by simp
  from filter_loop_all_decided [OF this, of "[]" "[]"] a
  show "filter_patchsets W xs s =
        (Inr (map fst (filter (\<lambda>p. snd p = 0) (zip xs (exit_statuses W pf (trace s) xs))),
              map fst (filter (\<lambda>p. snd p = 1) (zip xs (exit_statuses W pf (trace s) xs)))),
         s\<lparr>trace := trace s @ map (\<lambda>x. SubprocessCall (filter_argv pf x)) xs\<rparr>)"
    by (simp add: filter_patchsets_def)
next
  assume a: "patch_filter s = Some pf \<and> pf \<noteq> [] \<and> k < length xs
        \<and> (\<forall>j<k. exit_statuses W pf (trace s) xs ! j = 0
                  \<or> exit_statuses W pf (trace s) xs ! j = 1)
        \<and> exit_statuses W pf (trace s) xs ! k \<noteq> 0
        \<and> exit_statuses W pf (trace s) xs ! k \<noteq> 1"
  then have "filter_loop W pf xs [] [] s =
     (Inl (filter_error (join_sp (filter_argv pf (xs ! k))) (exit_statuses W pf (trace s) xs ! k)),
      s\<lparr>trace := trace s @ map (\<lambda>x. SubprocessCall (filter_argv pf x)) (take (Suc k) xs)\<rparr>)"
    by (intro filter_loop_first_undecided) simp_all
  with a show "filter_patchsets W xs s =
        (Inl (filter_error (join_sp (filter_argv pf (xs ! k)))
                (exit_statuses W pf (trace s) xs ! k)),
         s\<lparr>trace := trace s @ map (\<lambda>x. SubprocessCall (filter_argv pf x)) (take (Suc k) xs)\<rparr>)"
    by (simp add: filter_patchsets_def)
qed (simp_all add: filter_patchsets_def Let_def)

theorem filter_patchsets_classification_witness:
  "filter_patchsets demo_world [series_a, series_b] demo_watcher =
     (Inr ([series_a], [series_b]),
      demo_watcher\<lparr>trace :=
        [SubprocessCall [''filter.sh'', ''--cover'', ''pw/cover/100/mbox'',
                         ''pw/patch/101/mbox'', ''pw/patch/102/mbox''],
         SubprocessCall [''filter.sh'', ''pw/patch/103/mbox'']]\<rparr>)
   \<and> filter_patchsets demo_world [series_a, series_b] (demo_watcher\<lparr>patch_filter := None\<rparr>) =
       (Inr ([series_a, series_b], []), demo_watcher\<lparr>patch_filter := None\<rparr>)
   \<and> filter_patchsets
         (demo_world\<lparr>subprocess_call :=
            \<lambda>tr argv. if ''pw/patch/103/mbox'' \<in> set argv then 0 else - 9\<rparr>)
         [series_a, series_b] demo_watcher =
       (Inl (FilterSignal
               ''filter.sh --cover pw/cover/100/mbox pw/patch/101/mbox pw/patch/102/mbox'' 9),
        demo_watcher\<lparr>trace :=
          [SubprocessCall [''filter.sh'', ''--cover'', ''pw/cover/100/mbox'',
                           ''pw/patch/101/mbox'', ''pw/patch/102/mbox'']]\<rparr>)"
  using filter_patchsets_classification
          [of demo_watcher demo_world "[series_a, series_b]" "''filter.sh''" 0 series_a]
        filter_patchsets_classification
          [of "demo_watcher\<lparr>patch_filter := None\<rparr>" demo_world "[series_a, series_b]"
              "''filter.sh''" 0 series_a]
        filter_patchsets_classification
          [of demo_watcher
              "demo_world\<lparr>subprocess_call :=
                 \<lambda>tr argv. if ''pw/patch/103/mbox'' \<in> set argv then 0 else - 9\<rparr>"
              "[series_a, series_b]" "''filter.sh''" 0 series_a]
  by (simp add: demo_world_def demo_watcher_def set_baseline_def init_watcher_def
        series_a_def series_b_def filter_argv_def)

section \<open>Registration of a project\<close>

lemma py2_max_None: "py2_max a b = None \<longleftrightarrow> a = None \<and> b = None"
  by (simp add: py2_max_def split: option.splits)

lemma py2_max_greatest:
  "py2_max a b = Some m \<Longrightarrow>
     (a = Some m \<or> b = Some m) \<and> (\<forall>x. a = Some x \<longrightarrow> x \<le> m) \<and> (\<forall>x. b = Some x \<longrightarrow> x \<le> m)"
  by (auto simp: py2_max_def split: option.splits if_splits)

text \<open>
  Claim C8. \<^verbatim>\<open>add_pw\<close> without a starting cursor (\<^verbatim>\<open>lpatch\<close> is \<^verbatim>\<open>None\<close>) raises the
  "never tested before" exception exactly when the store has neither a last checked nor
  a last pending patch (XML-RPC variant), respectively patch date (REST variant), for
  the project; the project is then not added. When the store has one of the two, the
  call succeeds and appends the project with its cursor (\<^verbatim>\<open>lastpatch\<close>, respectively
  \<^verbatim>\<open>since\<close>) set to a value \<open>m\<close> that is one of the two stored values and is not below
  either of them. With a starting cursor given, the call succeeds and appends the
  project as the constructor made it.
\<close>

theorem add_pw_bootstrap:
  assumes "p1 = pw_new_v1 W (trace s) baseurl pname None"
    and "lc1 = db_get_last_checked_patch W (trace s @ [PwNewV1 baseurl pname None])
                 baseurl (pw_project_id p1)"
    and "lp1 = db_get_last_pending_patch W
                 (trace s @ [PwNewV1 baseurl pname None,
                             DbGetLastCheckedPatch baseurl (pw_project_id p1)])
                 baseurl (pw_project_id p1)"
    and "p2 = pw_new_v2 W (trace s) baseurl pname None"
    and "lc2 = db_get_last_checked_patch_date W (trace s @ [PwNewV2 baseurl pname None])
                 baseurl (pw_project_id p2)"
    and "lp2 = db_get_last_pending_patch_date W
                 (trace s @ [PwNewV2 baseurl pname None,
                             DbGetLastCheckedPatchDate baseurl (pw_project_id p2)])
                 baseurl (pw_project_id p2)"
  shows "(fst (add_pw W baseurl pname None False s) = Inl (NeverTested baseurl pname)
            \<longleftrightarrow> lc1 = None \<and> lp1 = None)
       \<and> (lc1 = None \<and> lp1 = None \<longrightarrow> pw (snd (add_pw W baseurl pname None False s)) = pw s)
       \<and> (\<not> (lc1 = None \<and> lp1 = None) \<longrightarrow>
            fst (add_pw W baseurl pname None False s) = Inr ()
            \<and> (\<exists>m. pw (snd (add_pw W baseurl pname None False s))
                       = pw s @ [p1\<lparr>pw_lastpatch := Some m\<rparr>]
                   \<and> (lc1 = Some m \<or> lp1 = Some m)
                   \<and> (\<forall>x. lc1 = Some x \<longrightarrow> x \<le> m) \<and> (\<forall>x. lp1 = Some x \<longrightarrow> x \<le> m)))
       \<and> (fst (add_pw W baseurl pname None True s) = Inl (NeverTested baseurl pname)
            \<longleftrightarrow> lc2 = None \<and> lp2 = None)
       \<and> (lc2 = None \<and> lp2 = None \<longrightarrow> pw (snd (add_pw W baseurl pname None True s)) = pw s)
       \<and> (\<not> (lc2 = None \<and> lp2 = None) \<longrightarrow>
            fst (add_pw W baseurl pname None True s) = Inr ()
            \<and> (\<exists>m. pw (snd (add_pw W baseurl pname None True s))
                       = pw s @ [p2\<lparr>pw_since := Some m\<rparr>]
                   \<and> (lc2 = Some m \<or> lp2 = Some m)
                   \<and> (\<forall>x. lc2 = Some x \<longrightarrow> x \<le> m) \<and> (\<forall>x. lp2 = Some x \<longrightarrow> x \<le> m)))
       \<and> add_pw W baseurl pname (Some l) False s
            = (Inr (), s\<lparr>trace := trace s @ [PwNewV1 baseurl pname (Some l)],
                         pw := pw s @ [pw_new_v1 W (trace s) baseurl pname (Some l)]\<rparr>)
       \<and> add_pw W baseurl pname (Some l) True s
            = (Inr (), s\<lparr>trace := trace s @ [PwNewV2 baseurl pname (Some l)],
                         pw := pw s @ [pw_new_v2 W (trace s) baseurl pname (Some l)]\<rparr>)"
proof -
  have v1: "add_pw W baseurl pname None False s =
      (let s2 = s\<lparr>trace := trace s @ [PwNewV1 baseurl pname None,
                     DbGetLastCheckedPatch baseurl (pw_project_id p1),
                     DbGetLastPendingPatch baseurl (pw_project_id p1)]\<rparr>
       in if py2_max lc1 lp1 = None then (Inl (NeverTested baseurl pname), s2)
          else (Inr (), s2\<lparr>pw := pw s @ [p1\<lparr>pw_lastpatch := py2_max lc1 lp1\<rparr>]\<rparr>))"
    by (simp add: add_pw_def Let_def log_event_def assms)
  have v2: "add_pw W baseurl pname None True s =
      (let s2 = s\<lparr>trace := trace s @ [PwNewV2 baseurl pname None,
                     DbGetLastCheckedPatchDate baseurl (pw_project_id p2),
                     DbGetLastPendingPatchDate baseurl (pw_project_id p2)]\<rparr>
       in if py2_max lc2 lp2 = None then (Inl (NeverTested baseurl pname), s2)
          else (Inr (), s2\<lparr>pw := pw s @ [p2\<lparr>pw_since := py2_max lc2 lp2\<rparr>]\<rparr>))"
    by (simp add: add_pw_def Let_def log_event_def assms)
  have a: "fst (add_pw W baseurl pname None False s) = Inl (NeverTested baseurl pname)
            \<longleftrightarrow> lc1 = None \<and> lp1 = None"
    by (simp add: v1 Let_def py2_max_None)
  have b: "lc1 = None \<and> lp1 = None \<longrightarrow> pw (snd (add_pw W baseurl pname None False s)) = pw s"
    by (simp add: v1 Let_def py2_max_None)
  have c: "\<not> (lc1 = None \<and> lp1 = None) \<longrightarrow>
            fst (add_pw W baseurl pname None False s) = Inr ()
            \<and> (\<exists>m. pw (snd (add_pw W baseurl pname None False s))
                       = pw s @ [p1\<lparr>pw_lastpatch := Some m\<rparr>]
                   \<and> (lc1 = Some m \<or> lp1 = Some m)
                   \<and> (\<forall>x. lc1 = Some x \<longrightarrow> x \<le> m) \<and> (\<forall>x. lp1 = Some x \<longrightarrow> x \<le> m))"
  proof
    assume n: "\<not> (lc1 = None \<and> lp1 = None)"
    then have "py2_max lc1 lp1 \<noteq> None" by (simp add: py2_max_None)
    then obtain m where m: "py2_max lc1 lp1 = Some m" by auto
    from py2_max_greatest [OF m] m
    show "fst (add_pw W baseurl pname None False s) = Inr ()
            \<and> (\<exists>m. pw (snd (add_pw W baseurl pname None False s))
                       = pw s @ [p1\<lparr>pw_lastpatch := Some m\<rparr>]
                   \<and> (lc1 = Some m \<or> lp1 = Some m)
                   \<and> (\<forall>x. lc1 = Some x \<longrightarrow> x \<le> m) \<and> (\<forall>x. lp1 = Some x \<longrightarrow> x \<le> m))"
      by (simp add: v1 Let_def) (rule exI [of _ m], simp)
  qed
  have a2: "fst (add_pw W baseurl pname None True s) = Inl (NeverTested baseurl pname)
            \<longleftrightarrow> lc2 = None \<and> lp2 = None"
    by (simp add: v2 Let_def py2_max_None)
  have b2: "lc2 = None \<and> lp2 = None \<longrightarrow> pw (snd (add_pw W baseurl pname None True s)) = pw s"
    by (simp add: v2 Let_def py2_max_None)
  have c2: "\<not> (lc2 = None \<and> lp2 = None) \<longrightarrow>
            fst (add_pw W baseurl pname None True s) = Inr ()
            \<and> (\<exists>m. pw (snd (add_pw W baseurl pname None True s))
                       = pw s @ [p2\<lparr>pw_since := Some m\<rparr>]
                   \<and> (lc2 = Some m \<or> lp2 = Some m)
                   \<and> (\<forall>x. lc2 = Some x \<longrightarrow> x \<le> m) \<and> (\<forall>x. lp2 = Some x \<longrightarrow> x \<le> m))"
  proof
    assume n: "\<not> (lc2 = None \<and> lp2 = None)"
    then have "py2_max lc2 lp2 \<noteq> None" by (simp add: py2_max_None)
    then obtain m where m: "py2_max lc2 lp2 = Some m" by auto
    from py2_max_greatest [OF m] m
    show "fst (add_pw W baseurl pname None True s) = Inr ()
            \<and> (\<exists>m. pw (snd (add_pw W baseurl pname None True s))
                       = pw s @ [p2\<lparr>pw_since := Some m\<rparr>]
                   \<and> (lc2 = Some m \<or> lp2 = Some m)
                   \<and> (\<forall>x. lc2 = Some x \<longrightarrow> x \<le> m) \<and> (\<forall>x. lp2 = Some x \<longrightarrow> x \<le> m))"
      by (simp add: v2 Let_def) (rule exI [of _ m], simp)
  qed
  have d: "add_pw W baseurl pname (Some l) False s
            = (Inr (), s\<lparr>trace := trace s @ [PwNewV1 baseurl pname (Some l)],
                         pw := pw s @ [pw_new_v1 W (trace s) baseurl pname (Some l)]\<rparr>)"
    by (simp add: add_pw_def Let_def log_event_def)
  have d2: "add_pw W baseurl pname (Some l) True s
            = (Inr (), s\<lparr>trace := trace s @ [PwNewV2 baseurl pname (Some l)],
                         pw := pw s @ [pw_new_v2 W (trace s) baseurl pname (Some l)]\<rparr>)"
    by (simp add: add_pw_def Let_def log_event_def)
  from a b c a2 b2 c2 d d2 show ?thesis by blast
qed

theorem add_pw_bootstrap_witness:
  "fst (add_pw demo_world ''pw'' ''k'' None False (init_watcher None None)) = Inr ()
   \<and> pw (snd (add_pw demo_world ''pw'' ''k'' None False (init_watcher None None))) =
       [\<lparr>pw_is_v2 = False, pw_baseurl = ''pw'', pw_pname = ''k'', pw_project_id = 1,
         pw_since = None, pw_lastpatch = Some 103\<rparr>]
   \<and> fst (add_pw demo_world ''pw'' ''k'' None True (init_watcher None None)) = Inr ()
   \<and> pw (snd (add_pw demo_world ''pw'' ''k'' None True (init_watcher None None))) =
       [\<lparr>pw_is_v2 = True, pw_baseurl = ''pw'', pw_pname = ''k'', pw_project_id = 1,
         pw_since = Some ''2018-01-02T03:04:05'', pw_lastpatch = None\<rparr>]
   \<and> fst (add_pw (demo_world\<lparr>db_get_last_checked_patch := \<lambda>tr b p. None,
                              db_get_last_pending_patch := \<lambda>tr b p. None\<rparr>)
             ''pw'' ''k'' None False (init_watcher None None))
       = Inl (NeverTested ''pw'' ''k'')
   \<and> pw (snd (add_pw (demo_world\<lparr>db_get_last_checked_patch := \<lambda>tr b p. None,
                                  db_get_last_pending_patch := \<lambda>tr b p. None\<rparr>)
                 ''pw'' ''k'' None False (init_watcher None None))) = []"
  using add_pw_bootstrap [of _ demo_world "init_watcher None None" "''pw''" "''k''" _ _ _ _ _ 0,
          OF refl refl refl refl refl refl]
        add_pw_bootstrap
          [of _ "demo_world\<lparr>db_get_last_checked_patch := \<lambda>tr b p. None,
                            db_get_last_pending_patch := \<lambda>tr b p. None\<rparr>"
              "init_watcher None None" "''pw''" "''k''" _ _ _ _ _ 0,
           OF refl refl refl refl refl refl]
  by (auto simp: demo_world_def init_watcher_def)

section \<open>The shape of a patch URL\<close>

lemma not_digit_LF: "\<not> is_digit LF"
  by (simp add: is_digit_def LF_def)

lemma not_digit_slash: "\<not> is_digit (CHR ''/'')"
  by (simp add: is_digit_def)

lemma trailing_digits:
  assumes "\<forall>c \<in> set d. is_digit c"
  shows "rev (takeWhile is_digit (rev (b @ ''/patch/'' @ d))) = d"
proof -
  have "takeWhile is_digit (rev d @ (rev ''/patch/'' @ rev b))
        = rev d @ takeWhile is_digit (rev ''/patch/'' @ rev b)"
    by (rule takeWhile_append2) (use assms in simp)
  also have "takeWhile is_digit (rev ''/patch/'' @ rev b) = []"
    by (simp add: not_digit_slash)
  finally have "takeWhile is_digit (rev d @ (rev ''/patch/'' @ rev b)) = rev d"
    by simp
  then show ?thesis by simp
qed

lemma patch_url_match_accepts:
  assumes "d \<noteq> []" and "\<forall>c \<in> set d. is_digit c" and "LF \<notin> set b"
  shows "patch_url_match (b @ ''/patch/'' @ d) = Some (b, d)"
    and "patch_url_match (b @ ''/patch/'' @ d @ [LF]) = Some (b, d)"
proof -
  define body where "body = b @ ''/patch/'' @ d"
  have "rev (takeWhile is_digit (rev body)) = d"
    unfolding body_def using assms(2) by (rule trailing_digits)
  then have ds: "takeWhile is_digit (rev body) = rev d"
    by (metis rev_rev_ident)
  have len: "length body = length b + 7 + length d"
    unfolding body_def by simp
  have pre: "take (length b + 7) body = b @ ''/patch/''" "take (length b) body = b"
    unfolding body_def by simp_all
  have "last d \<in> set d" using assms(1) by simp
  then have "last d \<noteq> LF" using assms(2) not_digit_LF by auto
  then have l: "last body \<noteq> LF" using assms(1) by (simp add: body_def)
  have bl: "butlast (body @ [LF]) = body" by simp
  have "patch_url_match body = Some (b, d)"
    using assms(1,3) l by (simp add: patch_url_match_def Let_def ds len pre)
  then show "patch_url_match (b @ ''/patch/'' @ d) = Some (b, d)"
    by (simp add: body_def)
  have "patch_url_match (body @ [LF]) = Some (b, d)"
    using assms(1,3) by (simp add: patch_url_match_def Let_def ds len pre)
  then show "patch_url_match (b @ ''/patch/'' @ d @ [LF]) = Some (b, d)"
    by (simp add: body_def)
qed

lemma patch_url_match_sound:
  assumes "patch_url_match url = Some (b, d)"
  shows "d \<noteq> [] \<and> (\<forall>c \<in> set d. is_digit c) \<and> LF \<notin> set b
         \<and> (url = b @ ''/patch/'' @ d \<or> url = b @ ''/patch/'' @ d @ [LF])"
proof -
  define body where "body = (if url \<noteq> [] \<and> last url = LF then butlast url else url)"
  define ds where "ds = rev (takeWhile is_digit (rev body))"
  define pre where "pre = take (length body - length ds) body"
  define base where "base = take (length pre - 7) pre"
  have m: "patch_url_match url =
      (if ds \<noteq> [] \<and> 7 \<le> length pre \<and> drop (length pre - 7) pre = ''/patch/''
            \<and> LF \<notin> set base
       then Some (base, ds) else None)"
    by (simp add: patch_url_match_def Let_def body_def ds_def pre_def base_def)
  with assms have c: "ds \<noteq> []" "drop (length pre - 7) pre = ''/patch/''" "LF \<notin> set base"
    and e: "b = base" "d = ds"
    by (auto split: if_splits)
  have "rev body = takeWhile is_digit (rev body) @ dropWhile is_digit (rev body)" by simp
  then have "body = rev (dropWhile is_digit (rev body)) @ ds"
    unfolding ds_def by (metis rev_append rev_rev_ident)
  then have body: "body = pre @ ds"
    unfolding pre_def by (metis append_eq_conv_conj diff_add_inverse2 length_append)
  have "pre = base @ drop (length pre - 7) pre" by (simp add: base_def)
  with c have pre: "pre = base @ ''/patch/''" by simp
  have digs: "\<forall>c \<in> set ds. is_digit c"
    unfolding ds_def by (auto dest: set_takeWhileD)
  have url: "url = body \<or> url = body @ [LF]"
  proof (cases "url \<noteq> [] \<and> last url = LF")
    case True
    then have "url = butlast url @ [LF]" by (metis append_butlast_last_id)
    with True show ?thesis by (simp add: body_def)
  next
    case False
    then show ?thesis by (auto simp: body_def)
  qed
  from c digs url body pre e show ?thesis by auto
qed

lemma patch_url_match_Some_iff:
  "patch_url_match url = Some (b, d) \<longleftrightarrow>
     d \<noteq> [] \<and> (\<forall>c \<in> set d. is_digit c) \<and> LF \<notin> set b
     \<and> (url = b @ ''/patch/'' @ d \<or> url = b @ ''/patch/'' @ d @ [LF])"
  using patch_url_match_sound [of url b d] patch_url_match_accepts [of d b] by blast

lemma py_int_snoc: "py_int (ds @ [c]) = 10 * py_int ds + digit_value c"
  by (simp add: py_int_def digit_value_def)

lemma py_int_positional:
  "py_int ds = (\<Sum>i<length ds. digit_value (ds ! i) * 10 ^ (length ds - Suc i))"
proof (induction ds rule: rev_induct)
  case Nil
  show ?case by (simp add: py_int_def)
next
  case (snoc c ds)
  have "(\<Sum>i<length ds. digit_value ((ds @ [c]) ! i) * 10 ^ (length (ds @ [c]) - Suc i))
        = (\<Sum>i<length ds. 10 * (digit_value (ds ! i) * 10 ^ (length ds - Suc i)))"
  proof (rule sum.cong)
    fix i assume "i \<in> {..<length ds}"
    then have i: "i < length ds" by simp
    then have "length (ds @ [c]) - Suc i = Suc (length ds - Suc i)" by simp
    with i show "digit_value ((ds @ [c]) ! i) * 10 ^ (length (ds @ [c]) - Suc i)
                 = 10 * (digit_value (ds ! i) * 10 ^ (length ds - Suc i))"
      by (simp add: nth_append)
  qed simp
  then show ?case
    by (simp add: py_int_snoc snoc.IH sum_distrib_left)
qed

text \<open>
  Claim C10, amended. For a patch URL that is a base without a line feed in it, followed
  by \<^verbatim>\<open>/patch/\<close> and one or more decimal digits, \<^verbatim>\<open>get_patch_info_from_url\<close> asks the
  tracker for the patch whose number is the decimal value of the digits, and returns
  the tuple of that number, the name of the patch, the URL as it was given, the base,
  the project identifier, and the date of the tracker record with each space replaced
  by \<^verbatim>\<open>T\<close> and every other character kept.
\<close>

theorem get_patch_info_from_url_well_formed:
  assumes "ds \<noteq> []" and "\<forall>c \<in> set ds. is_digit c" and "LF \<notin> set base"
    and "url = base @ ''/patch/'' @ ds"
    and "patch_id = (\<Sum>i<length ds. digit_value (ds ! i) * 10 ^ (length ds - Suc i))"
    and "patch = pw_get_patch_by_id W (trace s) cpw patch_id"
  shows "get_patch_info_from_url W (Some cpw) url s =
           (Inr (patch_id, pr_name patch, url, base,
                 (if pw_is_v2 cpw then pr_project patch else pr_project_id patch),
                 map (\<lambda>c. if c = CHR '' '' then CHR ''T'' else c) (pr_date patch)),
            s\<lparr>trace := trace s @ [PwGetPatchById cpw patch_id]\<rparr>)"
proof -
  have m: "patch_url_match url = Some (base, ds)"
    unfolding assms(4) using assms(1-3) by (rule patch_url_match_accepts(1))
  have i: "py_int ds = patch_id"
    by (simp add: assms(5) py_int_positional)
  show ?thesis
    by (simp add: get_patch_info_from_url_def m i Let_def log_event_def assms(6)
          replace_space_T_def)
qed

theorem get_patch_info_from_url_well_formed_witness:
  "get_patch_info_from_url demo_world (Some demo_pw) ''pw/patch/0103'' demo_watcher =
     (Inr (103, ''p'', ''pw/patch/0103'', ''pw'', 1, ''2018-01-02T03:04:05''),
      demo_watcher\<lparr>trace := [PwGetPatchById demo_pw 103]\<rparr>)"
proof -
  have d: "\<forall>c \<in> set ''0103''. is_digit c" by (simp add: is_digit_def)
  have b: "LF \<notin> set ''pw''" by (simp add: LF_def)
  have v: "(103::int) = (\<Sum>i<length ''0103''. digit_value (''0103'' ! i)
                            * 10 ^ (length ''0103'' - Suc i))"
    by (simp add: digit_value_def lessThan_Suc numeral_eq_Suc)
  have t: "trace demo_watcher = []"
    by (simp add: demo_watcher_def set_baseline_def init_watcher_def)
  from get_patch_info_from_url_well_formed
         [of "''0103''" "''pw''" "''pw/patch/0103''" 103 _ demo_world demo_watcher demo_pw,
          OF _ d b _ v refl]
  show ?thesis
    by (simp add: t) (simp add: demo_world_def demo_pw_def)
qed

text \<open>The claim without the condition on the base fails: a base with a line feed in it
  is not matched by \<^verbatim>\<open>.*\<close>, and the call raises.\<close>

theorem get_patch_info_from_url_line_feed_in_base:
  "get_patch_info_from_url demo_world (Some demo_pw) (''p'' @ [LF] @ ''w/patch/103'')
     demo_watcher
   = (Inl (MalformedPatchUrl (''p'' @ [LF] @ ''w/patch/103'')), demo_watcher)"
  by (simp add: get_patch_info_from_url_def patch_url_match_def Let_def is_digit_def LF_def)

section \<open>What each operation adds to the history\<close>

lemma get_patch_info_from_url_effect:
  assumes "get_patch_info_from_url W c u s = (r, s')"
  shows "\<exists>evs. s' = s\<lparr>trace := trace s @ evs\<rparr> \<and> (\<forall>e \<in> set evs. kind_of e = Query)"
proof (cases "\<exists>p. r = Inr p")
  case True
  with assms obtain cpw i where "s' = s\<lparr>trace := trace s @ [PwGetPatchById cpw i]\<rparr>"
    by (auto simp: get_patch_info_from_url_def Let_def log_event_def
        split: option.splits prod.splits)
  then show ?thesis by (intro exI [of _ "[PwGetPatchById cpw i]"]) simp
next
  case False
  with assms have "s' = s"
    by (auto simp: get_patch_info_from_url_def Let_def log_event_def
        split: option.splits prod.splits)
  then show ?thesis by (intro exI [of _ "[]"]) simp
qed

lemma resolve_patches_effect:
  "resolve_patches W c us acc s = (r, s') \<Longrightarrow>
   \<exists>evs. s' = s\<lparr>trace := trace s @ evs\<rparr> \<and> (\<forall>e \<in> set evs. kind_of e = Query)"
proof (induction us arbitrary: acc s)
  case Nil
  then show ?case by (intro exI [of _ "[]"]) simp
next
  case (Cons u us)
  obtain r1 s1 where g: "get_patch_info_from_url W c u s = (r1, s1)"
    by (cases "get_patch_info_from_url W c u s")
  from get_patch_info_from_url_effect [OF g] obtain e1
    where s1: "s1 = s\<lparr>trace := trace s @ e1\<rparr>" and k1: "\<forall>e \<in> set e1. kind_of e = Query"
    by blast
  show ?case
  proof (cases r1)
    case (Inl e)
    with Cons.prems g have "s' = s1" by simp
    with s1 k1 show ?thesis by blast
  next
    case (Inr p)
    with Cons.prems g have "resolve_patches W c us (acc @ [p]) s1 = (r, s')" by simp
    from Cons.IH [OF this] obtain e2
      where s2: "s' = s1\<lparr>trace := trace s1 @ e2\<rparr>" and k2: "\<forall>e \<in> set e2. kind_of e = Query"
      by blast
    from s1 s2 have "s' = s\<lparr>trace := trace s @ (e1 @ e2)\<rparr>" by simp
    moreover from k1 k2 have "\<forall>e \<in> set (e1 @ e2). kind_of e = Query" by auto
    ultimately show ?thesis by blast
  qed
qed

lemma filter_loop_effect:
  "filter_loop W pf xs ready dropped s = (r, s') \<Longrightarrow>
   \<exists>evs. s' = s\<lparr>trace := trace s @ evs\<rparr> \<and> (\<forall>e \<in> set evs. kind_of e = Query)"
proof (induction xs arbitrary: ready dropped s)
  case Nil
  then show ?case by (intro exI [of _ "[]"]) simp
next
  case (Cons x xs)
  let ?e = "SubprocessCall (filter_argv pf x)"
  let ?s1 = "log_event ?e s"
  have s1: "?s1 = s\<lparr>trace := trace s @ [?e]\<rparr>" by (simp add: log_event_def)
  consider (go) ready' dropped' where "filter_loop W pf xs ready' dropped' ?s1 = (r, s')"
    | (stop) "s' = ?s1"
    using Cons.prems by (auto simp: Let_def split: if_splits)
  then show ?case
  proof cases
    case go
    from Cons.IH [OF this] obtain e2
      where s2: "s' = ?s1\<lparr>trace := trace ?s1 @ e2\<rparr>" and k2: "\<forall>e \<in> set e2. kind_of e = Query"
      by blast
    from s2 have "s' = s\<lparr>trace := trace s @ (?e # e2)\<rparr>" by (simp add: log_event_def)
    moreover from k2 have "\<forall>e \<in> set (?e # e2). kind_of e = Query" by simp
    ultimately show ?thesis by blast
  next
    case stop
    with s1 show ?thesis by (intro exI [of _ "[?e]"]) simp
  qed
qed

lemma filter_patchsets_effect:
  assumes "filter_patchsets W xs s = (r, s')"
  shows "\<exists>evs. s' = s\<lparr>trace := trace s @ evs\<rparr> \<and> (\<forall>e \<in> set evs. kind_of e = Query)"
proof (cases "\<exists>pf. patch_filter s = Some pf \<and> pf \<noteq> []")
  case True
  then obtain pf where "patch_filter s = Some pf" "pf \<noteq> []" by blast
  with assms have "filter_loop W pf xs [] [] s = (r, s')"
    by (simp add: filter_patchsets_def)
  then show ?thesis by (rule filter_loop_effect)
next
  case False
  with assms have "s' = s"
    by (auto simp: filter_patchsets_def split: option.splits if_splits)
  then show ?thesis by (intro exI [of _ "[]"]) simp
qed

lemma commit_dropped_effect:
  "commit_dropped W cpw xs s = (r, s') \<Longrightarrow>
   \<exists>evs. s' = s\<lparr>trace := trace s @ evs\<rparr>
         \<and> (\<forall>e \<in> set evs. kind_of e = Query \<or> kind_of e = Commit_Series)"
proof (induction xs arbitrary: s)
  case Nil
  then show ?case by (intro exI [of _ "[]"]) simp
next
  case (Cons x xs)
  obtain r1 s1 where g: "resolve_patches W (Some cpw) (patch_url_list x) [] s = (r1, s1)"
    by (cases "resolve_patches W (Some cpw) (patch_url_list x) [] s")
  from resolve_patches_effect [OF g] obtain e1
    where s1: "s1 = s\<lparr>trace := trace s @ e1\<rparr>" and k1: "\<forall>e \<in> set e1. kind_of e = Query"
    by blast
  show ?case
  proof (cases r1)
    case (Inl e)
    with Cons.prems g have "s' = s1" by simp
    with s1 k1 show ?thesis by blast
  next
    case (Inr ps)
    let ?s2 = "log_event (DbCommitSeries ps) s1"
    from Inr Cons.prems g have "commit_dropped W cpw xs ?s2 = (r, s')" by simp
    from Cons.IH [OF this] obtain e2
      where s2: "s' = ?s2\<lparr>trace := trace ?s2 @ e2\<rparr>"
        and k2: "\<forall>e \<in> set e2. kind_of e = Query \<or> kind_of e = Commit_Series"
      by blast
    from s1 s2 have "s' = s\<lparr>trace := trace s @ (e1 @ DbCommitSeries ps # e2)\<rparr>"
      by (simp add: log_event_def)
    moreover from k1 k2
    have "\<forall>e \<in> set (e1 @ DbCommitSeries ps # e2). kind_of e = Query \<or> kind_of e = Commit_Series"
      by auto
    ultimately show ?thesis by blast
  qed
qed

section \<open>Malformed patch URLs\<close>

lemma accepted_patch_url_iff: "accepted_patch_url url \<longleftrightarrow> patch_url_match url \<noteq> None"
proof
  assume "accepted_patch_url url"
  then obtain b d where "patch_url_match url = Some (b, d)"
    unfolding accepted_patch_url_def patch_url_match_Some_iff by blast
  then show "patch_url_match url \<noteq> None" by simp
next
  assume "patch_url_match url \<noteq> None"
  then obtain b d where "patch_url_match url = Some (b, d)" by auto
  then show "accepted_patch_url url"
    unfolding accepted_patch_url_def patch_url_match_Some_iff by blast
qed

lemma get_patch_info_from_url_malformed_iff:
  "get_patch_info_from_url W c url s = (Inl (MalformedPatchUrl url), s)
     \<longleftrightarrow> \<not> accepted_patch_url url"
  by (auto simp: accepted_patch_url_iff get_patch_info_from_url_def Let_def
      split: option.splits)

lemma resolve_patches_malformed:
  "\<exists>u \<in> set us. \<not> accepted_patch_url u \<Longrightarrow>
   \<exists>u evs. u \<in> set us \<and> \<not> accepted_patch_url u
     \<and> resolve_patches W (Some cpw) us acc s
         = (Inl (MalformedPatchUrl u), s\<lparr>trace := trace s @ evs\<rparr>)
     \<and> (\<forall>e \<in> set evs. kind_of e = Query)"
proof (induction us arbitrary: acc s)
  case Nil
  then show ?case by simp
next
  case (Cons u us)
  show ?case
  proof (cases "accepted_patch_url u")
    case False
    then have "get_patch_info_from_url W (Some cpw) u s = (Inl (MalformedPatchUrl u), s)"
      by (simp add: get_patch_info_from_url_malformed_iff)
    then have "resolve_patches W (Some cpw) (u # us) acc s
                 = (Inl (MalformedPatchUrl u), s\<lparr>trace := trace s @ []\<rparr>)"
      by simp
    with False show ?thesis by (intro exI [of _ u] exI [of _ "[]"]) simp
  next
    case True
    with Cons.prems have rest: "\<exists>u \<in> set us. \<not> accepted_patch_url u" by auto
    obtain r1 s1 where g: "get_patch_info_from_url W (Some cpw) u s = (r1, s1)"
      by (cases "get_patch_info_from_url W (Some cpw) u s")
    from True obtain p where r1: "r1 = Inr p"
      using g by (auto simp: accepted_patch_url_iff get_patch_info_from_url_def Let_def
          split: option.splits)
    from get_patch_info_from_url_effect [OF g] obtain e1
      where s1: "s1 = s\<lparr>trace := trace s @ e1\<rparr>" and k1: "\<forall>e \<in> set e1. kind_of e = Query"
      by blast
    from Cons.IH [OF rest, of "acc @ [p]" s1] obtain v e2
      where v: "v \<in> set us" "\<not> accepted_patch_url v"
        and res: "resolve_patches W (Some cpw) us (acc @ [p]) s1
                    = (Inl (MalformedPatchUrl v), s1\<lparr>trace := trace s1 @ e2\<rparr>)"
        and k2: "\<forall>e \<in> set e2. kind_of e = Query"
      by blast
    have "resolve_patches W (Some cpw) (u # us) acc s
            = (Inl (MalformedPatchUrl v), s\<lparr>trace := trace s @ (e1 @ e2)\<rparr>)"
      using g r1 res s1 by simp
    moreover have "\<forall>e \<in> set (e1 @ e2). kind_of e = Query" using k1 k2 by auto
    ultimately show ?thesis using v by (intro exI [of _ v] exI [of _ "e1 @ e2"]) simp
  qed
qed

lemma query_not_store_mutation: "kind_of e = Query \<Longrightarrow> \<not> is_store_mutation e"
  by (simp add: is_store_mutation_def)

text \<open>
  Claim C9, amended. \<^verbatim>\<open>get_patch_info_from_url\<close> raises the "malformed patch url"
  exception, having done nothing, exactly for the URLs that are not of the accepted
  shape: a base without a line feed, \<^verbatim>\<open>/patch/\<close>, one or more decimal digits and
  possibly a final line feed. When a patch URL of a dropped series is not of that shape,
  the loop over the dropped series raises the exception for such a URL of that series,
  and from the start of the series to the exception nothing is written to the store.
  When the URL list of a completed PATCHWORK build (whose result is not ERROR) has a URL
  that is not of that shape, the reconciliation of the entry raises the exception for
  such a URL, the entry is removed, and nothing is written to the store.
\<close>

theorem malformed_patch_url_aborts:
  assumes "hist = trace s @ [JkIsBuildComplete bid, JkGetResult bid, JkGetResultUrl bid,
                             JkGetBaseHash bid, JkGetBaseCommitdate bid,
                             PjRemove (PATCHWORK, bid, Some cpw)]"
  shows "(get_patch_info_from_url W c url s = (Inl (MalformedPatchUrl url), s)
            \<longleftrightarrow> \<not> accepted_patch_url url)
       \<and> ((\<exists>u \<in> set (patch_url_list x). \<not> accepted_patch_url u) \<longrightarrow>
            (\<exists>u evs. u \<in> set (patch_url_list x) \<and> \<not> accepted_patch_url u
               \<and> commit_dropped W cpw (x # xs) s
                   = (Inl (MalformedPatchUrl u), s\<lparr>trace := trace s @ evs\<rparr>)
               \<and> (\<forall>e \<in> set evs. \<not> is_store_mutation e)))
       \<and> (jk_is_build_complete W (trace s) bid
            \<and> jk_get_result W (trace s @ [JkIsBuildComplete bid]) bid \<noteq> ERROR
            \<and> (\<exists>u \<in> set (jk_get_patch_url_list W hist bid). \<not> accepted_patch_url u) \<longrightarrow>
            (\<exists>u evs. u \<in> set (jk_get_patch_url_list W hist bid) \<and> \<not> accepted_patch_url u
               \<and> check_pending_body W (PATCHWORK, bid, Some cpw) s
                   = (Inl (MalformedPatchUrl u),
                      s\<lparr>pj := remove1 (PATCHWORK, bid, Some cpw) (pj s),
                        trace := trace s @ evs\<rparr>)
               \<and> (\<forall>e \<in> set evs. \<not> is_store_mutation e)))"
proof (intro conjI impI)
  show "get_patch_info_from_url W c url s = (Inl (MalformedPatchUrl url), s)
            \<longleftrightarrow> \<not> accepted_patch_url url"
    by (rule get_patch_info_from_url_malformed_iff)
next
  assume "\<exists>u \<in> set (patch_url_list x). \<not> accepted_patch_url u"
  from resolve_patches_malformed [OF this, of W cpw "[]" s] obtain u evs
    where u: "u \<in> set (patch_url_list x)" "\<not> accepted_patch_url u"
      and r: "resolve_patches W (Some cpw) (patch_url_list x) [] s
                = (Inl (MalformedPatchUrl u), s\<lparr>trace := trace s @ evs\<rparr>)"
      and k: "\<forall>e \<in> set evs. kind_of e = Query"
    by blast
  from r have "commit_dropped W cpw (x # xs) s
                 = (Inl (MalformedPatchUrl u), s\<lparr>trace := trace s @ evs\<rparr>)"
    by simp
  moreover from k have "\<forall>e \<in> set evs. \<not> is_store_mutation e"
    by (simp add: query_not_store_mutation)
  ultimately show "\<exists>u evs. u \<in> set (patch_url_list x) \<and> \<not> accepted_patch_url u
               \<and> commit_dropped W cpw (x # xs) s
                   = (Inl (MalformedPatchUrl u), s\<lparr>trace := trace s @ evs\<rparr>)
               \<and> (\<forall>e \<in> set evs. \<not> is_store_mutation e)"
    using u by blast
next
  let ?e = "(PATCHWORK, bid, Some cpw)"
  let ?pre = "[JkIsBuildComplete bid, JkGetResult bid, JkGetResultUrl bid,
               JkGetBaseHash bid, JkGetBaseCommitdate bid, PjRemove ?e,
               JkGetPatchUrlList bid]"
  let ?s6 = "s\<lparr>pj := remove1 ?e (pj s), trace := trace s @ ?pre\<rparr>"
  assume a: "jk_is_build_complete W (trace s) bid
            \<and> jk_get_result W (trace s @ [JkIsBuildComplete bid]) bid \<noteq> ERROR
            \<and> (\<exists>u \<in> set (jk_get_patch_url_list W hist bid). \<not> accepted_patch_url u)"
  then have bad: "\<exists>u \<in> set (jk_get_patch_url_list W hist bid). \<not> accepted_patch_url u"
    by simp
  from resolve_patches_malformed [OF bad, of W cpw "[]" ?s6] obtain u evs
    where u: "u \<in> set (jk_get_patch_url_list W hist bid)" "\<not> accepted_patch_url u"
      and r: "resolve_patches W (Some cpw) (jk_get_patch_url_list W hist bid) [] ?s6
                = (Inl (MalformedPatchUrl u), ?s6\<lparr>trace := trace ?s6 @ evs\<rparr>)"
      and k: "\<forall>e \<in> set evs. kind_of e = Query"
    by blast
  have "check_pending_body W ?e s
          = (Inl (MalformedPatchUrl u),
             s\<lparr>pj := remove1 ?e (pj s), trace := trace s @ (?pre @ evs)\<rparr>)"
    using a r by (simp add: check_pending_body_def Let_def log_event_def assms)
  moreover have "\<forall>e \<in> set (?pre @ evs). \<not> is_store_mutation e"
    using k by (auto simp: is_store_mutation_def)
  ultimately show "\<exists>u evs. u \<in> set (jk_get_patch_url_list W hist bid) \<and> \<not> accepted_patch_url u
               \<and> check_pending_body W (PATCHWORK, bid, Some cpw) s
                   = (Inl (MalformedPatchUrl u),
                      s\<lparr>pj := remove1 (PATCHWORK, bid, Some cpw) (pj s),
                        trace := trace s @ evs\<rparr>)
               \<and> (\<forall>e \<in> set evs. \<not> is_store_mutation e)"
    using u by blast
qed

theorem malformed_patch_url_aborts_witness:
  "\<not> accepted_patch_url ''pw/patch/x''
   \<and> get_patch_info_from_url demo_world (Some demo_pw) ''pw/patch/x'' demo_watcher
       = (Inl (MalformedPatchUrl ''pw/patch/x''), demo_watcher)
   \<and> fst (commit_dropped demo_world demo_pw
             [series_b\<lparr>patch_url_list := [''pw/patch/103'', ''pw/patch/x'']\<rparr>, series_a]
             demo_watcher)
       = Inl (MalformedPatchUrl ''pw/patch/x'')
   \<and> fst (check_pending_body
             (demo_world\<lparr>jk_get_patch_url_list := \<lambda>tr b. [''pw/patch/101'', ''pw/patch/x'']\<rparr>)
             (PATCHWORK, 7, Some demo_pw) (demo_watcher\<lparr>pj := [(PATCHWORK, 7, Some demo_pw)]\<rparr>))
       = Inl (MalformedPatchUrl ''pw/patch/x'')"
proof -
  have n: "\<not> accepted_patch_url ''pw/patch/x''"
    by (simp add: accepted_patch_url_iff patch_url_match_def Let_def is_digit_def LF_def)
  have a: "accepted_patch_url ''pw/patch/103''" "accepted_patch_url ''pw/patch/101''"
    by (simp_all add: accepted_patch_url_iff patch_url_match_def Let_def is_digit_def LF_def)
  let ?W = "demo_world\<lparr>jk_get_patch_url_list := \<lambda>tr b. [''pw/patch/101'', ''pw/patch/x'']\<rparr>"
  let ?s = "demo_watcher\<lparr>pj := [(PATCHWORK, 7, Some demo_pw)]\<rparr>"
  note t1 = malformed_patch_url_aborts
      [of _ demo_watcher 7 demo_pw demo_world "Some demo_pw" "''pw/patch/x''"
          "series_b\<lparr>patch_url_list := [''pw/patch/103'', ''pw/patch/x'']\<rparr>" "[series_a]",
       OF refl]
  note t2 = malformed_patch_url_aborts
      [of _ ?s 7 demo_pw ?W "Some demo_pw" "''pw/patch/x''" series_a "[]", OF refl]
  from t1 n have g: "get_patch_info_from_url demo_world (Some demo_pw) ''pw/patch/x'' demo_watcher
       = (Inl (MalformedPatchUrl ''pw/patch/x''), demo_watcher)"
    by blast
  from t1 n a have d: "fst (commit_dropped demo_world demo_pw
             [series_b\<lparr>patch_url_list := [''pw/patch/103'', ''pw/patch/x'']\<rparr>, series_a]
             demo_watcher)
       = Inl (MalformedPatchUrl ''pw/patch/x'')"
    by auto
  have c: "jk_is_build_complete ?W (trace ?s) 7"
    "jk_get_result ?W (trace ?s @ [JkIsBuildComplete 7]) 7 \<noteq> ERROR"
    "jk_get_patch_url_list ?W tr 7 = [''pw/patch/101'', ''pw/patch/x'']" for tr
    by (simp_all add: demo_world_def)
  from t2 n a c have p: "fst (check_pending_body ?W (PATCHWORK, 7, Some demo_pw) ?s)
       = Inl (MalformedPatchUrl ''pw/patch/x'')"
    by auto
  from n g d p show ?thesis by blast
qed

text \<open>The claim for every URL that is not a base, \<^verbatim>\<open>/patch/\<close> and decimal digits fails:
  with a line feed behind the digits the URL is resolved, and the tuple keeps the line
  feed in the URL.\<close>

theorem get_patch_info_from_url_final_line_feed:
  "get_patch_info_from_url demo_world (Some demo_pw) (''pw/patch/101'' @ [LF]) demo_watcher
     = (Inr (101, ''p'', ''pw/patch/101'' @ [LF], ''pw'', 1, ''2018-01-02T03:04:05''),
        demo_watcher\<lparr>trace := [PwGetPatchById demo_pw 101]\<rparr>)
   \<and> \<not> is_digit (last (''pw/patch/101'' @ [LF]))"
  by (simp add: get_patch_info_from_url_def patch_url_match_def Let_def is_digit_def LF_def
        py_int_def log_event_def replace_space_T_def demo_world_def demo_pw_def
        demo_watcher_def set_baseline_def init_watcher_def)

section \<open>One pass of the reconciler\<close>

text \<open>A relation between the watcher before and after that the body of the loop
  establishes, and that is reflexive and transitive, holds for the whole loop.\<close>

lemma check_pending_from_rule:
  assumes body: "\<And>e s r s'. e \<in> set (pj s) \<Longrightarrow> check_pending_body W e s = (r, s') \<Longrightarrow> R s s'"
    and refl: "\<And>s. R s s"
    and trans: "\<And>a b c. R a b \<Longrightarrow> R b c \<Longrightarrow> R a c"
  shows "check_pending_from W i s = (r, s') \<Longrightarrow> R s s'"
proof (induction "length (pj s) - i" arbitrary: i s rule: less_induct)
  case less
  show ?case
  proof (cases "i < length (pj s)")
    case False
    with less.prems have "s' = s" by (simp add: check_pending_from.simps)
    then show ?thesis by (simp add: refl)
  next
    case True
    obtain r1 s1 where b: "check_pending_body W (pj s ! i) s = (r1, s1)"
      by (cases "check_pending_body W (pj s ! i) s")
    have "pj s ! i \<in> set (pj s)" using True by simp
    from body [OF this b] have R1: "R s s1" .
    have len: "length (pj s1) \<le> length (pj s)"
      using b by (rule length_pj_check_pending_body)
    show ?thesis
    proof (cases r1)
      case (Inl e)
      with less.prems True b have "s' = s1" by (simp add: check_pending_from.simps)
      with R1 show ?thesis by simp
    next
      case (Inr u)
      with less.prems True b have nxt: "check_pending_from W (Suc i) s1 = (r, s')"
        by (simp add: check_pending_from.simps)
      have "length (pj s1) - Suc i < length (pj s) - i" using len True by simp
      from less.hyps [OF this nxt] have "R s1 s'" .
      with R1 show ?thesis by (rule trans)
    qed
  qed
qed

text \<open>A pass raises only if the body does.\<close>

lemma check_pending_from_no_raise:
  assumes body: "\<And>e s. fst (check_pending_body W e s) = Inr ()"
  shows "fst (check_pending_from W i s) = Inr ()"
proof (induction "length (pj s) - i" arbitrary: i s rule: less_induct)
  case less
  show ?case
  proof (cases "i < length (pj s)")
    case False
    then show ?thesis by (simp add: check_pending_from.simps)
  next
    case True
    obtain r1 s1 where b: "check_pending_body W (pj s ! i) s = (r1, s1)"
      by (cases "check_pending_body W (pj s ! i) s")
    with body [of "pj s ! i" s] have r1: "r1 = Inr ()" by simp
    have len: "length (pj s1) \<le> length (pj s)"
      using b by (rule length_pj_check_pending_body)
    then have "length (pj s1) - Suc i < length (pj s) - i" using True by simp
    from less.hyps [OF this] have "fst (check_pending_from W (Suc i) s1) = Inr ()" .
    with True b r1 show ?thesis by (simp add: check_pending_from.simps)
  qed
qed

lemma check_pending_body_error:
  assumes "jk_is_build_complete W (trace s) bid"
    and "jk_get_result W (trace s @ [JkIsBuildComplete bid]) bid = ERROR"
  shows "check_pending_body W (pjt, bid, cpw) s =
           (Inr (), s\<lparr>pj := remove1 (pjt, bid, cpw) (pj s),
                      trace := trace s @ completion_events (pjt, bid, cpw)\<rparr>)"
  using assms by (simp add: check_pending_body_def Let_def log_event_def completion_events_def)

lemma check_pending_body_incomplete:
  assumes "\<not> jk_is_build_complete W (trace s) bid"
  shows "check_pending_body W (pjt, bid, cpw) s =
           (Inr (), s\<lparr>trace := trace s @ [JkIsBuildComplete bid]\<rparr>)"
  using assms by (simp add: check_pending_body_def Let_def log_event_def)

lemma no_store_mutation_refl: "no_store_mutation s s"
  by (simp add: no_store_mutation_def)

lemma no_store_mutation_trans:
  "no_store_mutation a b \<Longrightarrow> no_store_mutation b c \<Longrightarrow> no_store_mutation a c"
  unfolding no_store_mutation_def
proof -
  assume "\<exists>evs. trace b = trace a @ evs \<and> (\<forall>e \<in> set evs. \<not> is_store_mutation e)"
    and "\<exists>evs. trace c = trace b @ evs \<and> (\<forall>e \<in> set evs. \<not> is_store_mutation e)"
  then obtain e1 e2 where "trace b = trace a @ e1" "\<forall>e \<in> set e1. \<not> is_store_mutation e"
    "trace c = trace b @ e2" "\<forall>e \<in> set e2. \<not> is_store_mutation e"
    by blast
  then have "trace c = trace a @ (e1 @ e2) \<and> (\<forall>e \<in> set (e1 @ e2). \<not> is_store_mutation e)"
    by auto
  then show "\<exists>evs. trace c = trace a @ evs \<and> (\<forall>e \<in> set evs. \<not> is_store_mutation e)"
    by blast
qed

lemma check_pending_body_all_error:
  assumes "\<And>tr b. jk_get_result W tr b = ERROR"
  shows "fst (check_pending_body W e s) = Inr ()"
    and "check_pending_body W e s = (r, s') \<Longrightarrow> no_store_mutation s s'"
proof -
  obtain pjt bid cpw where e: "e = (pjt, bid, cpw)" by (cases e)
  show "fst (check_pending_body W e s) = Inr ()"
    unfolding e
    by (cases "jk_is_build_complete W (trace s) bid")
       (simp_all add: check_pending_body_error check_pending_body_incomplete assms)
  assume b: "check_pending_body W e s = (r, s')"
  show "no_store_mutation s s'"
  proof (cases "jk_is_build_complete W (trace s) bid")
    case True
    with b have "trace s' = trace s @ completion_events (pjt, bid, cpw)"
      by (auto simp: e check_pending_body_error assms)
    moreover have "\<forall>x \<in> set (completion_events (pjt, bid, cpw)). \<not> is_store_mutation x"
      by (simp add: completion_events_def is_store_mutation_def)
    ultimately show ?thesis unfolding no_store_mutation_def by blast
  next
    case False
    with b have "trace s' = trace s @ [JkIsBuildComplete bid]"
      by (auto simp: e check_pending_body_incomplete)
    moreover have "\<forall>x \<in> set [JkIsBuildComplete bid]. \<not> is_store_mutation x"
      by (simp add: is_store_mutation_def)
    ultimately show ?thesis unfolding no_store_mutation_def by blast
  qed
qed

text \<open>The branch for the result ERROR, once the loop is at an entry. When the build of
  the entry is complete and its result is ERROR, the entry is removed from \<^verbatim>\<open>self.pj\<close>
  and the loop goes on: whatever the type of the job, the events of the entry are the
  five questions to the CI backend and the removal, so nothing is written to the store,
  and no exception is raised. If every result the backend reports is ERROR, a whole pass
  raises nothing and writes nothing to the store.\<close>

lemma check_pending_error_branch:
  "(jk_is_build_complete W (trace s) bid
      \<and> jk_get_result W (trace s @ [JkIsBuildComplete bid]) bid = ERROR \<longrightarrow>
    check_pending_body W (pjt, bid, cpw) s =
      (Inr (), s\<lparr>pj := remove1 (pjt, bid, cpw) (pj s),
                 trace := trace s @ [JkIsBuildComplete bid, JkGetResult bid,
                                     JkGetResultUrl bid, JkGetBaseHash bid,
                                     JkGetBaseCommitdate bid, PjRemove (pjt, bid, cpw)]\<rparr>))
   \<and> ((\<forall>tr b. jk_get_result W tr b = ERROR) \<longrightarrow>
        fst (check_pending W s) = Inr ()
        \<and> (\<exists>evs. trace (snd (check_pending W s)) = trace s @ evs
                 \<and> (\<forall>e \<in> set evs. \<not> is_store_mutation e)))"
proof (intro conjI impI)
  assume "jk_is_build_complete W (trace s) bid
      \<and> jk_get_result W (trace s @ [JkIsBuildComplete bid]) bid = ERROR"
  then show "check_pending_body W (pjt, bid, cpw) s =
      (Inr (), s\<lparr>pj := remove1 (pjt, bid, cpw) (pj s),
                 trace := trace s @ [JkIsBuildComplete bid, JkGetResult bid,
                                     JkGetResultUrl bid, JkGetBaseHash bid,
                                     JkGetBaseCommitdate bid, PjRemove (pjt, bid, cpw)]\<rparr>)"
    by (simp add: check_pending_body_error completion_events_def)
next
  assume a: "\<forall>tr b. jk_get_result W tr b = ERROR"
  then show "fst (check_pending W s) = Inr ()"
    unfolding check_pending_def
    by (intro check_pending_from_no_raise check_pending_body_all_error(1)) simp
next
  assume a: "\<forall>tr b. jk_get_result W tr b = ERROR"
  have "no_store_mutation s (snd (check_pending W s))"
  proof (rule check_pending_from_rule [where W = W and i = 0 and r = "fst (check_pending W s)"])
    show "check_pending_from W 0 s = (fst (check_pending W s), snd (check_pending W s))"
      by (simp add: check_pending_def)
  next
    fix e t r t'
    assume "check_pending_body W e t = (r, t')"
    then show "no_store_mutation t t'"
      using a by (intro check_pending_body_all_error(2) [where W = W]) simp_all
  qed (auto intro: no_store_mutation_refl no_store_mutation_trans)
  then show "\<exists>evs. trace (snd (check_pending W s)) = trace s @ evs
                 \<and> (\<forall>e \<in> set evs. \<not> is_store_mutation e)"
    by (simp add: no_store_mutation_def)
qed

section \<open>Entries the pass does not reach\<close>

text \<open>
  Claim C2 at a concrete input. With two entries in \<^verbatim>\<open>self.pj\<close> whose builds are both
  complete, one pass of \<^verbatim>\<open>check_pending\<close> reconciles the first and ends: the removal of
  the first entry moves the second to the index the iterator has already passed. The CI
  backend is never asked about build 2, and its entry stays in \<^verbatim>\<open>self.pj\<close>.
\<close>

theorem check_pending_skips_entry:
  "check_pending demo_world (demo_watcher\<lparr>pj := [(BASELINE, 1, None), (BASELINE, 2, None)]\<rparr>)
   = (Inr (),
      demo_watcher\<lparr>pj := [(BASELINE, 2, None)],
                    trace := [JkIsBuildComplete 1, JkGetResult 1, JkGetResultUrl 1,
                              JkGetBaseHash 1, JkGetBaseCommitdate 1,
                              PjRemove (BASELINE, 1, None),
                              DbUpdateBaseline (Some ''git/linux'') ''c0de'' ''1514862245''
                                SUCCESS 1]\<rparr>)
   \<and> jk_is_build_complete demo_world
        (trace (snd (check_pending demo_world
                       (demo_watcher\<lparr>pj := [(BASELINE, 1, None), (BASELINE, 2, None)]\<rparr>)))) 2
   \<and> JkIsBuildComplete 2
        \<notin> set (trace (snd (check_pending demo_world
                              (demo_watcher\<lparr>pj := [(BASELINE, 1, None), (BASELINE, 2, None)]\<rparr>))))"
proof -
  let ?s = "demo_watcher\<lparr>pj := [(BASELINE, 1, None), (BASELINE, 2, None)]\<rparr>"
  let ?s1 = "demo_watcher\<lparr>pj := [(BASELINE, 2, None)],
                    trace := [JkIsBuildComplete 1, JkGetResult 1, JkGetResultUrl 1,
                              JkGetBaseHash 1, JkGetBaseCommitdate 1,
                              PjRemove (BASELINE, 1, None),
                              DbUpdateBaseline (Some ''git/linux'') ''c0de'' ''1514862245''
                                SUCCESS 1]\<rparr>"
  have b: "check_pending_body demo_world (BASELINE, 1, None) ?s = (Inr (), ?s1)"
    by (simp add: check_pending_body_def Let_def log_event_def demo_world_def
          demo_watcher_def set_baseline_def init_watcher_def)
  have p: "pj ?s = [(BASELINE, 1, None), (BASELINE, 2, None)]" "pj ?s1 = [(BASELINE, 2, None)]"
    by simp_all
  have two: "check_pending_from demo_world (Suc 0) ?s1 = (Inr (), ?s1)"
    by (subst check_pending_from.simps) (simp only: p, simp)
  have "check_pending_from demo_world 0 ?s = (Inr (), ?s1)"
    by (subst check_pending_from.simps) (simp only: p, simp add: b two)
  then have r: "check_pending demo_world ?s = (Inr (), ?s1)"
    by (simp add: check_pending_def)
  show ?thesis
    unfolding r by (simp add: demo_world_def)
qed


section \<open>One batch of series\<close>

lemma series_build_args_frame [simp]:
  "series_build_args (s\<lparr>pj := js, trace := tr\<rparr>) st x = series_build_args s st x"
  "series_build_args (s\<lparr>trace := tr\<rparr>) st x = series_build_args s st x"
  "series_build_args (s\<lparr>pj := js\<rparr>) st x = series_build_args s st x"
  by (simp_all add: series_build_args_def)

lemma submit_series_effect:
  "\<exists>js evs. submit_series W st cpw xs s = s\<lparr>pj := pj s @ js, trace := trace s @ evs\<rparr>
     \<and> (\<forall>e \<in> set evs. kind_of e = Build \<or> kind_of e = Pj_Append \<or> kind_of e = Set_Pending)
     \<and> (\<forall>x \<in> set xs. JkBuild (series_build_args s st x) \<in> set evs)"
proof (induction xs arbitrary: s)
  case Nil
  show ?case by (intro exI [of _ "[]"]) simp
next
  case (Cons x xs)
  let ?a = "series_build_args s st x"
  let ?j = "(PATCHWORK, jk_build W (trace s) ?a, Some cpw)"
  let ?e = "[JkBuild ?a, PjAppend ?j,
             DbSetPatchsetPending (pw_baseurl cpw) (pw_project_id cpw) (patch_info_list x)]"
  let ?s3 = "s\<lparr>pj := pj s @ [?j], trace := trace s @ ?e\<rparr>"
  have step: "submit_series W st cpw (x # xs) s = submit_series W st cpw xs ?s3"
    by (simp add: Let_def log_event_def)
  from Cons.IH [of ?s3] obtain js evs
    where r: "submit_series W st cpw xs ?s3 = ?s3\<lparr>pj := pj ?s3 @ js, trace := trace ?s3 @ evs\<rparr>"
      and k: "\<forall>e \<in> set evs. kind_of e = Build \<or> kind_of e = Pj_Append \<or> kind_of e = Set_Pending"
      and b: "\<forall>y \<in> set xs. JkBuild (series_build_args ?s3 st y) \<in> set evs"
    by blast
  have "submit_series W st cpw (x # xs) s = s\<lparr>pj := pj s @ (?j # js), trace := trace s @ (?e @ evs)\<rparr>"
    using step r by simp
  moreover have "\<forall>e \<in> set (?e @ evs).
      kind_of e = Build \<or> kind_of e = Pj_Append \<or> kind_of e = Set_Pending"
    using k by auto
  moreover have "\<forall>y \<in> set (x # xs). JkBuild (series_build_args s st y) \<in> set (?e @ evs)"
    using b by auto
  ultimately show ?case by blast
qed

text \<open>The three ways \<^verbatim>\<open>check_patchwork\<close> leaves the body of its loop.\<close>

lemma check_patchwork_project_cases:
  assumes "check_patchwork_project W st cpw s = (r, s')"
  obtains
    (filter_raises) e where
      "filter_patchsets W (pw_get_new_patchsets W (trace s) cpw)
         (s\<lparr>trace := trace s @ [PwGetNewPatchsets cpw]\<rparr>) = (Inl e, s')"
      "r = Inl e"
  | (drop_raises) ready dropped s2 e where
      "filter_patchsets W (pw_get_new_patchsets W (trace s) cpw)
         (s\<lparr>trace := trace s @ [PwGetNewPatchsets cpw]\<rparr>) = (Inr (ready, dropped), s2)"
      "commit_dropped W cpw dropped s2 = (Inl e, s')"
      "r = Inl e"
  | (submits) ready dropped s2 s3 where
      "filter_patchsets W (pw_get_new_patchsets W (trace s) cpw)
         (s\<lparr>trace := trace s @ [PwGetNewPatchsets cpw]\<rparr>) = (Inr (ready, dropped), s2)"
      "commit_dropped W cpw dropped s2 = (Inr (), s3)"
      "r = Inr ()"
      "s' = submit_series W st cpw
              (ready @ pw_get_patchsets W
                         (trace s3 @ [DbGetExpiredPendingPatches (pw_baseurl cpw)
                                        (pw_project_id cpw) 43200])
                         cpw
                         (db_get_expired_pending_patches W (trace s3) (pw_baseurl cpw)
                            (pw_project_id cpw) 43200))
              (s3\<lparr>trace := trace s3 @
                     [DbGetExpiredPendingPatches (pw_baseurl cpw) (pw_project_id cpw) 43200,
                      PwGetPatchsets cpw
                        (db_get_expired_pending_patches W (trace s3) (pw_baseurl cpw)
                           (pw_project_id cpw) 43200)]\<rparr>)"
proof -
  let ?s1 = "s\<lparr>trace := trace s @ [PwGetNewPatchsets cpw]\<rparr>"
  let ?new = "pw_get_new_patchsets W (trace s) cpw"
  obtain r1 s2 where f: "filter_patchsets W ?new ?s1 = (r1, s2)"
    by (cases "filter_patchsets W ?new ?s1")
  show thesis
  proof (cases r1)
    case (Inl e)
    with assms f have "r = Inl e" "s' = s2"
      by (simp_all add: check_patchwork_project_def Let_def log_event_def)
    with f Inl show thesis by (intro filter_raises [of e]) simp_all
  next
    case (Inr rd)
    obtain ready dropped where rd: "rd = (ready, dropped)" by (cases rd)
    obtain r2 s3 where c: "commit_dropped W cpw dropped s2 = (r2, s3)"
      by (cases "commit_dropped W cpw dropped s2")
    show thesis
    proof (cases r2)
      case (Inl e)
      with assms f Inr rd c have "r = Inl e" "s' = s3"
        by (simp_all add: check_patchwork_project_def Let_def log_event_def)
      with f Inr rd c Inl show thesis by (intro drop_raises [of ready dropped s2 e]) simp_all
    next
      case Inr2: (Inr u)
      from assms f Inr rd c Inr2 show thesis
        by (intro submits [of ready dropped s2 s3])
           (simp_all add: check_patchwork_project_def Let_def log_event_def)
    qed
  qed
qed

lemma committed_series_append:
  "committed_series (a @ b) = committed_series a @ committed_series b"
  by (induction a rule: committed_series.induct) simp_all

lemma committed_series_queries:
  "\<forall>e \<in> set evs. kind_of e = Query \<Longrightarrow> committed_series evs = []"
  by (induction evs rule: committed_series.induct) simp_all

lemma resolve_patches_urls:
  "resolve_patches W c us acc s = (Inr ps, s') \<Longrightarrow>
   map patch_url_of ps = map patch_url_of acc @ us"
proof (induction us arbitrary: acc s)
  case Nil
  then show ?case by simp
next
  case (Cons u us)
  obtain r1 s1 where g: "get_patch_info_from_url W c u s = (r1, s1)"
    by (cases "get_patch_info_from_url W c u s")
  show ?case
  proof (cases r1)
    case (Inl e)
    with Cons.prems g show ?thesis by simp
  next
    case (Inr p)
    with g have "patch_url_of p = u"
      by (auto simp: get_patch_info_from_url_def Let_def patch_url_of_def
          split: option.splits prod.splits)
    moreover from Inr Cons.prems g
    have "resolve_patches W c us (acc @ [p]) s1 = (Inr ps, s')" by simp
    from Cons.IH [OF this] have "map patch_url_of ps = map patch_url_of (acc @ [p]) @ us" .
    ultimately show ?thesis by simp
  qed
qed

lemma commit_dropped_commits:
  "commit_dropped W cpw xs s = (Inr u, s') \<Longrightarrow>
   \<exists>evs. s' = s\<lparr>trace := trace s @ evs\<rparr>
         \<and> (\<forall>e \<in> set evs. kind_of e = Query \<or> kind_of e = Commit_Series)
         \<and> map (map patch_url_of) (committed_series evs) = map patch_url_list xs"
proof (induction xs arbitrary: s)
  case Nil
  then show ?case by (intro exI [of _ "[]"]) simp
next
  case (Cons x xs)
  obtain r1 s1 where g: "resolve_patches W (Some cpw) (patch_url_list x) [] s = (r1, s1)"
    by (cases "resolve_patches W (Some cpw) (patch_url_list x) [] s")
  from resolve_patches_effect [OF g] obtain e1
    where s1: "s1 = s\<lparr>trace := trace s @ e1\<rparr>" and k1: "\<forall>e \<in> set e1. kind_of e = Query"
    by blast
  show ?case
  proof (cases r1)
    case (Inl e)
    with Cons.prems g show ?thesis by simp
  next
    case (Inr ps)
    let ?s2 = "log_event (DbCommitSeries ps) s1"
    from Inr g have urls: "map patch_url_of ps = patch_url_list x"
      by (auto dest: resolve_patches_urls)
    from Inr Cons.prems g have "commit_dropped W cpw xs ?s2 = (Inr u, s')" by simp
    from Cons.IH [OF this] obtain e2
      where s2: "s' = ?s2\<lparr>trace := trace ?s2 @ e2\<rparr>"
        and k2: "\<forall>e \<in> set e2. kind_of e = Query \<or> kind_of e = Commit_Series"
        and c2: "map (map patch_url_of) (committed_series e2) = map patch_url_list xs"
      by blast
    from s1 s2 have "s' = s\<lparr>trace := trace s @ (e1 @ DbCommitSeries ps # e2)\<rparr>"
      by (simp add: log_event_def)
    moreover from k1 k2
    have "\<forall>e \<in> set (e1 @ DbCommitSeries ps # e2). kind_of e = Query \<or> kind_of e = Commit_Series"
      by auto
    moreover have "map (map patch_url_of) (committed_series (e1 @ DbCommitSeries ps # e2))
                   = map patch_url_list (x # xs)"
      using k1 urls c2 by (simp add: committed_series_append committed_series_queries)
    ultimately show ?thesis by blast
  qed
qed

text \<open>
  Claim C4. In the body of the loop of \<^verbatim>\<open>check_patchwork\<close> (one batch: the new series
  of one project, split by the filter into ready and dropped), the history the body adds
  is a first part without a build submission followed by a second part without a commit
  of a dropped series. If the body raises, the second part is empty: nothing was
  submitted. If it returns, the first part holds one commit for each dropped series, in
  order, of tuples with the patch URLs of that series, and the second part holds the
  build submission of every ready series.
\<close>

theorem drops_committed_before_submission:
  assumes "filter_patchsets W (pw_get_new_patchsets W (trace s) cpw)
             (s\<lparr>trace := trace s @ [PwGetNewPatchsets cpw]\<rparr>) = (Inr (ready, dropped), s2)"
  shows "\<exists>pre post.
           trace (snd (check_patchwork_project W stablecommit cpw s)) = trace s @ pre @ post
           \<and> (\<forall>e \<in> set pre. kind_of e \<noteq> Build)
           \<and> (\<forall>e \<in> set post. kind_of e \<noteq> Commit_Series)
           \<and> (fst (check_patchwork_project W stablecommit cpw s) \<noteq> Inr () \<longrightarrow> post = [])
           \<and> (fst (check_patchwork_project W stablecommit cpw s) = Inr () \<longrightarrow>
                map (map patch_url_of) (committed_series pre) = map patch_url_list dropped
                \<and> (\<forall>x \<in> set ready. JkBuild (series_build_args s stablecommit x) \<in> set post))"
proof -
  obtain r s' where c: "check_patchwork_project W stablecommit cpw s = (r, s')"
    by (cases "check_patchwork_project W stablecommit cpw s")
  let ?s1 = "s\<lparr>trace := trace s @ [PwGetNewPatchsets cpw]\<rparr>"
  from filter_patchsets_effect [OF assms] obtain ef
    where s2: "s2 = ?s1\<lparr>trace := trace ?s1 @ ef\<rparr>" and kf: "\<forall>e \<in> set ef. kind_of e = Query"
    by blast
  from c show ?thesis
  proof (cases rule: check_patchwork_project_cases)
    case (filter_raises e)
    with assms show ?thesis by simp
  next
    case (drop_raises ready' dropped' s2' e)
    with assms have d: "commit_dropped W cpw dropped s2 = (Inl e, s')" by simp
    from commit_dropped_effect [OF d] obtain ed
      where s': "s' = s2\<lparr>trace := trace s2 @ ed\<rparr>"
        and kd: "\<forall>e \<in> set ed. kind_of e = Query \<or> kind_of e = Commit_Series"
      by blast
    let ?pre = "PwGetNewPatchsets cpw # ef @ ed"
    have "trace s' = trace s @ ?pre @ []" using s' s2 by simp
    moreover have "\<forall>e \<in> set ?pre. kind_of e \<noteq> Build" using kf kd by auto
    ultimately show ?thesis using c drop_raises(3)
      by (intro exI [of _ ?pre] exI [of _ "[]"]) simp
  next
    case (submits ready' dropped' s2' s3)
    with assms have d: "commit_dropped W cpw dropped s2 = (Inr (), s3)"
      and rd: "ready' = ready" by simp_all
    from commit_dropped_commits [OF d] obtain ed
      where s3: "s3 = s2\<lparr>trace := trace s2 @ ed\<rparr>"
        and kd: "\<forall>e \<in> set ed. kind_of e = Query \<or> kind_of e = Commit_Series"
        and cd: "map (map patch_url_of) (committed_series ed) = map patch_url_list dropped"
      by blast
    let ?exp = "db_get_expired_pending_patches W (trace s3) (pw_baseurl cpw)
                  (pw_project_id cpw) 43200"
    let ?q = "[DbGetExpiredPendingPatches (pw_baseurl cpw) (pw_project_id cpw) 43200,
               PwGetPatchsets cpw ?exp]"
    let ?s5 = "s3\<lparr>trace := trace s3 @ ?q\<rparr>"
    let ?xs = "ready @ pw_get_patchsets W
                  (trace s3 @ [DbGetExpiredPendingPatches (pw_baseurl cpw)
                                 (pw_project_id cpw) 43200]) cpw ?exp"
    from submit_series_effect [of W stablecommit cpw ?xs ?s5] obtain js post
      where sub: "submit_series W stablecommit cpw ?xs ?s5
                    = ?s5\<lparr>pj := pj ?s5 @ js, trace := trace ?s5 @ post\<rparr>"
        and kp: "\<forall>e \<in> set post. kind_of e = Build \<or> kind_of e = Pj_Append
                                  \<or> kind_of e = Set_Pending"
        and bp: "\<forall>x \<in> set ?xs. JkBuild (series_build_args ?s5 stablecommit x) \<in> set post"
      by blast
    let ?pre = "PwGetNewPatchsets cpw # ef @ ed @ ?q"
    have tr: "trace s' = trace s @ ?pre @ post"
      using submits(4) rd sub s3 s2 by simp
    have k1: "\<forall>e \<in> set ?pre. kind_of e \<noteq> Build" using kf kd by auto
    have k2: "\<forall>e \<in> set post. kind_of e \<noteq> Commit_Series" using kp by auto
    have cs: "map (map patch_url_of) (committed_series ?pre) = map patch_url_list dropped"
      using kf cd
      by (simp add: committed_series_append committed_series_queries)
    have fr: "series_build_args ?s5 stablecommit x = series_build_args s stablecommit x" for x
      by (simp add: s3 s2)
    have bs: "\<forall>x \<in> set ready. JkBuild (series_build_args s stablecommit x) \<in> set post"
    proof
      fix x assume "x \<in> set ready"
      then have "x \<in> set ?xs" by simp
      with bp have "JkBuild (series_build_args ?s5 stablecommit x) \<in> set post" by blast
      then show "JkBuild (series_build_args s stablecommit x) \<in> set post"
        by (simp only: fr)
    qed
    from tr k1 k2 cs bs c submits(3) show ?thesis
      by (intro exI [of _ ?pre] exI [of _ post]) simp
  qed
qed

text \<open>The sample batch: the filter accepts the series of patches 101 and 102 and rejects
  the series of patch 103; the rejected series is committed, then the accepted one is
  submitted and marked pending.\<close>

lemma demo_filter:
  "filter_patchsets demo_world (pw_get_new_patchsets demo_world (trace demo_watcher) demo_pw)
     (demo_watcher\<lparr>trace := trace demo_watcher @ [PwGetNewPatchsets demo_pw]\<rparr>)
   = (Inr ([series_a], [series_b]),
      demo_watcher\<lparr>trace :=
        [PwGetNewPatchsets demo_pw,
         SubprocessCall [''filter.sh'', ''--cover'', ''pw/cover/100/mbox'',
                         ''pw/patch/101/mbox'', ''pw/patch/102/mbox''],
         SubprocessCall [''filter.sh'', ''pw/patch/103/mbox'']]\<rparr>)"
  by (simp add: filter_patchsets_def filter_argv_def Let_def log_event_def demo_world_def
        demo_watcher_def set_baseline_def init_watcher_def series_a_def series_b_def)

lemma demo_batch:
  "check_patchwork_project demo_world ''c0de'' demo_pw demo_watcher
   = (Inr (),
      demo_watcher\<lparr>pj := [(PATCHWORK, 1, Some demo_pw)],
        trace :=
          [PwGetNewPatchsets demo_pw,
           SubprocessCall [''filter.sh'', ''--cover'', ''pw/cover/100/mbox'',
                           ''pw/patch/101/mbox'', ''pw/patch/102/mbox''],
           SubprocessCall [''filter.sh'', ''pw/patch/103/mbox''],
           PwGetPatchById demo_pw 103,
           DbCommitSeries [(103, ''p'', ''pw/patch/103'', ''pw'', 1, ''2018-01-02T03:04:05'')],
           DbGetExpiredPendingPatches ''pw'' 1 43200,
           PwGetPatchsets demo_pw [],
           JkBuild (series_build_args demo_watcher ''c0de'' series_a),
           PjAppend (PATCHWORK, 1, Some demo_pw),
           DbSetPatchsetPending ''pw'' 1 (patch_info_list series_a)]\<rparr>)"
proof -
  have m: "patch_url_match ''pw/patch/103'' = Some (''pw'', ''103'')"
    by (simp add: patch_url_match_def Let_def is_digit_def LF_def)
  have i: "py_int ''103'' = 103" by (simp add: py_int_def)
  have u: "patch_url_list series_b = [''pw/patch/103'']" by (simp add: series_b_def)
  have g: "pw_get_patch_by_id demo_world tr p n
           = \<lparr>pr_name = ''p'', pr_date = ''2018-01-02 03:04:05'', pr_project = 1,
              pr_project_id = 1\<rparr>" for tr p n
    by (simp add: demo_world_def)
  have v: "pw_is_v2 demo_pw = False" "pw_baseurl demo_pw = ''pw''" "pw_project_id demo_pw = 1"
    by (simp_all add: demo_pw_def)
  have w: "db_get_expired_pending_patches demo_world tr b q a = []"
    "pw_get_patchsets demo_world tr p infos = []"
    "jk_build demo_world tr args = fold max (appended_bids tr) 0 + 1" for tr b q a p infos args
    by (simp_all add: demo_world_def)
  have t: "trace demo_watcher = []" "pj demo_watcher = []"
    by (simp_all add: demo_watcher_def set_baseline_def init_watcher_def)
  show ?thesis
    unfolding check_patchwork_project_def
    by (simp add: demo_filter [unfolded t, simplified] t Let_def log_event_def u m i g v w
          get_patch_info_from_url_def replace_space_T_def)
qed

theorem drops_committed_before_submission_witness:
  "fst (check_patchwork_project demo_world ''c0de'' demo_pw demo_watcher) = Inr ()
   \<and> (\<exists>pre post.
         trace (snd (check_patchwork_project demo_world ''c0de'' demo_pw demo_watcher))
           = trace demo_watcher @ pre @ post
         \<and> (\<forall>e \<in> set pre. kind_of e \<noteq> Build)
         \<and> (\<forall>e \<in> set post. kind_of e \<noteq> Commit_Series)
         \<and> map (map patch_url_of) (committed_series pre) = map patch_url_list [series_b]
         \<and> (\<forall>x \<in> set [series_a].
               JkBuild (series_build_args demo_watcher ''c0de'' x) \<in> set post))"
proof -
  have f: "fst (check_patchwork_project demo_world ''c0de'' demo_pw demo_watcher) = Inr ()"
    by (simp add: demo_batch)
  from drops_committed_before_submission [OF demo_filter, of "''c0de''"] f
  show ?thesis by blast
qed

section \<open>The pending mark\<close>

lemma submission_frame [simp]:
  "submission W (s\<lparr>pj := js, trace := t\<rparr>) st = submission W s st"
  "submission W (s\<lparr>trace := t\<rparr>) st = submission W s st"
  "submission W (s\<lparr>pj := js\<rparr>) st = submission W s st"
  by (simp_all add: submission_def fun_eq_iff)

lemma pending_marks_frame [simp]:
  "pending_marks_follow_builds W (s\<lparr>pj := js, trace := t\<rparr>) st
     = pending_marks_follow_builds W s st"
  "pending_marks_follow_builds W (s\<lparr>trace := t\<rparr>) st = pending_marks_follow_builds W s st"
  "pending_marks_follow_builds W (s\<lparr>pj := js\<rparr>) st = pending_marks_follow_builds W s st"
  by (simp_all add: pending_marks_follow_builds_def fun_eq_iff)

lemma offered_later: "offered W cpw tr ctx x \<Longrightarrow> offered W cpw tr (ctx @ e) x"
  unfolding offered_def
proof (elim disjE exE conjE)
  fix h rest
  assume "ctx = h @ PwGetNewPatchsets cpw # rest"
    and "x \<in> set (pw_get_new_patchsets W (tr @ h) cpw)"
  then have "ctx @ e = h @ PwGetNewPatchsets cpw # (rest @ e)
             \<and> x \<in> set (pw_get_new_patchsets W (tr @ h) cpw)"
    by simp
  then show "(\<exists>h rest. ctx @ e = h @ PwGetNewPatchsets cpw # rest
               \<and> x \<in> set (pw_get_new_patchsets W (tr @ h) cpw))
     \<or> (\<exists>h infos rest. ctx @ e = h @ PwGetPatchsets cpw infos # rest
                       \<and> x \<in> set (pw_get_patchsets W (tr @ h) cpw infos))"
    by blast
next
  fix h infos rest
  assume "ctx = h @ PwGetPatchsets cpw infos # rest"
    and "x \<in> set (pw_get_patchsets W (tr @ h) cpw infos)"
  then have "ctx @ e = h @ PwGetPatchsets cpw infos # (rest @ e)
             \<and> x \<in> set (pw_get_patchsets W (tr @ h) cpw infos)"
    by simp
  then show "(\<exists>h rest. ctx @ e = h @ PwGetNewPatchsets cpw # rest
               \<and> x \<in> set (pw_get_new_patchsets W (tr @ h) cpw))
     \<or> (\<exists>h infos rest. ctx @ e = h @ PwGetPatchsets cpw infos # rest
                       \<and> x \<in> set (pw_get_patchsets W (tr @ h) cpw infos))"
    by blast
qed

lemma pending_marks_empty: "pending_marks_follow_builds W s st tr []"
  by (simp add: pending_marks_follow_builds_def)

lemma pending_marks_quiet:
  assumes ctx: "pending_marks_follow_builds W s st tr ctx"
    and quiet: "\<forall>e \<in> set e1. kind_of e \<noteq> Set_Pending"
  shows "pending_marks_follow_builds W s st tr (ctx @ e1)"
  unfolding pending_marks_follow_builds_def
proof (intro allI impI)
  fix pre b p infos post
  let ?X = "DbSetPatchsetPending b p infos"
  assume "ctx @ e1 = pre @ ?X # post"
  then consider (left) us where "ctx = pre @ ?X # us"
    | (right) us where "e1 = us @ ?X # post"
    by (auto simp: append_eq_append_conv2 append_eq_Cons_conv Cons_eq_append_conv)
  then show "\<exists>pre' x cpw.
           pre @ [?X] = pre' @ submission W s st cpw (tr @ pre') x
           \<and> cpw \<in> set (pw s) \<and> offered W cpw tr pre' x"
  proof cases
    case left
    with ctx show ?thesis unfolding pending_marks_follow_builds_def by blast
  next
    case right
    then have "?X \<in> set e1" by simp
    with quiet have "kind_of ?X \<noteq> Set_Pending" by blast
    then show ?thesis by simp
  qed
qed

lemma pending_marks_submission:
  assumes ctx: "pending_marks_follow_builds W s st tr ctx"
    and cpw: "cpw \<in> set (pw s)" and x: "offered W cpw tr ctx x"
  shows "pending_marks_follow_builds W s st tr (ctx @ submission W s st cpw (tr @ ctx) x)"
  unfolding pending_marks_follow_builds_def
proof (intro allI impI)
  fix pre b p infos post
  let ?X = "DbSetPatchsetPending b p infos"
  let ?sub = "submission W s st cpw (tr @ ctx) x"
  assume "ctx @ ?sub = pre @ ?X # post"
  then consider (left) us where "ctx = pre @ ?X # us"
    | (right) us where "pre = ctx @ us" "?sub = us @ ?X # post"
    by (auto simp: append_eq_append_conv2 append_eq_Cons_conv Cons_eq_append_conv)
  then show "\<exists>pre' y c.
           pre @ [?X] = pre' @ submission W s st c (tr @ pre') y
           \<and> c \<in> set (pw s) \<and> offered W c tr pre' y"
  proof cases
    case left
    with ctx show ?thesis unfolding pending_marks_follow_builds_def by blast
  next
    case right
    from right(2) have "us @ [?X] = ?sub"
      by (auto simp: submission_def Cons_eq_append_conv)
    with right(1) have "pre @ [?X] = ctx @ ?sub" by simp
    with cpw x show ?thesis by blast
  qed
qed

lemma submit_series_step:
  "submit_series W st cpw (x # xs) s =
     submit_series W st cpw xs
       (s\<lparr>pj := pj s @ [(PATCHWORK, jk_build W (trace s) (series_build_args s st x), Some cpw)],
          trace := trace s @ submission W s st cpw (trace s) x\<rparr>)"
  by (simp add: Let_def log_event_def submission_def series_build_args_def)

lemma submit_series_pending:
  "trace s = tr @ ctx \<Longrightarrow> pending_marks_follow_builds W s st tr ctx \<Longrightarrow>
   cpw \<in> set (pw s) \<Longrightarrow> \<forall>x \<in> set xs. offered W cpw tr ctx x \<Longrightarrow>
   \<exists>js evs. submit_series W st cpw xs s = s\<lparr>pj := pj s @ js, trace := tr @ ctx @ evs\<rparr>
     \<and> pending_marks_follow_builds W s st tr (ctx @ evs)
     \<and> (\<forall>x \<in> set xs. \<exists>pre post.
           evs = pre @ submission W s st cpw (tr @ ctx @ pre) x @ post)"
proof (induction xs arbitrary: s ctx)
  case Nil
  then show ?case by (intro exI [of _ "[]"]) simp
next
  case (Cons x xs)
  let ?sub = "submission W s st cpw (tr @ ctx) x"
  let ?j = "(PATCHWORK, jk_build W (trace s) (series_build_args s st x), Some cpw)"
  let ?s3 = "s\<lparr>pj := pj s @ [?j], trace := tr @ (ctx @ ?sub)\<rparr>"
  have step: "submit_series W st cpw (x # xs) s = submit_series W st cpw xs ?s3"
    unfolding submit_series_step by (simp add: Cons.prems(1))
  have x: "offered W cpw tr ctx x" using Cons.prems(4) by simp
  have p3: "pending_marks_follow_builds W ?s3 st tr (ctx @ ?sub)"
    using pending_marks_submission [OF Cons.prems(2,3) x] by simp
  have o3: "\<forall>y \<in> set xs. offered W cpw tr (ctx @ ?sub) y"
    using Cons.prems(4) by (simp add: offered_later)
  have c3: "cpw \<in> set (pw ?s3)" using Cons.prems(3) by simp
  have t3: "trace ?s3 = tr @ (ctx @ ?sub)" by simp
  from Cons.IH [OF t3 p3 c3 o3] obtain js evs
    where r: "submit_series W st cpw xs ?s3
                = ?s3\<lparr>pj := pj ?s3 @ js, trace := tr @ (ctx @ ?sub) @ evs\<rparr>"
      and p: "pending_marks_follow_builds W s st tr ((ctx @ ?sub) @ evs)"
      and e: "\<forall>y \<in> set xs. \<exists>pre post.
                evs = pre @ submission W s st cpw (tr @ (ctx @ ?sub) @ pre) y @ post"
    by auto
  have 1: "submit_series W st cpw (x # xs) s
             = s\<lparr>pj := pj s @ (?j # js), trace := tr @ ctx @ (?sub @ evs)\<rparr>"
    using step r by simp
  have 2: "pending_marks_follow_builds W s st tr (ctx @ (?sub @ evs))"
    using p by simp
  have 3: "\<forall>y \<in> set (x # xs). \<exists>pre post.
             ?sub @ evs = pre @ submission W s st cpw (tr @ ctx @ pre) y @ post"
  proof
    fix y assume "y \<in> set (x # xs)"
    then consider "y = x" | "y \<in> set xs" by auto
    then show "\<exists>pre post. ?sub @ evs = pre @ submission W s st cpw (tr @ ctx @ pre) y @ post"
    proof cases
      case 1
      then show ?thesis by (intro exI [of _ "[]"] exI [of _ evs]) simp
    next
      case 2
      with e obtain pre post
        where "evs = pre @ submission W s st cpw (tr @ (ctx @ ?sub) @ pre) y @ post"
        by blast
      then show ?thesis by (intro exI [of _ "?sub @ pre"] exI [of _ post]) simp
    qed
  qed
  from 1 2 3 show ?case by blast
qed

lemma filter_loop_ready_subset:
  "filter_loop W pf xs ready dropped s = (Inr (r, d), s') \<Longrightarrow> set r \<subseteq> set ready \<union> set xs"
proof (induction xs arbitrary: ready dropped s)
  case Nil
  then show ?case by simp
next
  case (Cons x xs)
  let ?s1 = "log_event (SubprocessCall (filter_argv pf x)) s"
  from Cons.prems consider
      (zero) "filter_loop W pf xs (ready @ [x]) dropped ?s1 = (Inr (r, d), s')"
    | (one) "filter_loop W pf xs ready (dropped @ [x]) ?s1 = (Inr (r, d), s')"
    by (auto simp: Let_def split: if_splits)
  then show ?case
  proof cases
    case zero
    from Cons.IH [OF this] show ?thesis by auto
  next
    case one
    from Cons.IH [OF this] show ?thesis by auto
  qed
qed

lemma filter_patchsets_ready_subset:
  assumes "filter_patchsets W xs s = (Inr (r, d), s')"
  shows "set r \<subseteq> set xs"
proof (cases "\<exists>pf. patch_filter s = Some pf \<and> pf \<noteq> []")
  case True
  then obtain pf where "patch_filter s = Some pf" "pf \<noteq> []" by blast
  with assms have "filter_loop W pf xs [] [] s = (Inr (r, d), s')"
    by (simp add: filter_patchsets_def)
  from filter_loop_ready_subset [OF this] show ?thesis by simp
next
  case False
  with assms have "r = xs"
    by (auto simp: filter_patchsets_def split: option.splits if_splits)
  then show ?thesis by simp
qed


lemma check_patchwork_project_pending:
  assumes c: "check_patchwork_project W st cpw s = (r, s')"
    and tr: "trace s = tr @ ctx"
    and ctx: "pending_marks_follow_builds W s st tr ctx"
    and cpw: "cpw \<in> set (pw s)"
  shows "\<exists>js evs. s' = s\<lparr>pj := pj s @ js, trace := tr @ ctx @ evs\<rparr>
           \<and> pending_marks_follow_builds W s st tr (ctx @ evs)
           \<and> (\<forall>ready dropped s2.
                 r = Inr () \<and>
                 filter_patchsets W (pw_get_new_patchsets W (trace s) cpw)
                   (s\<lparr>trace := trace s @ [PwGetNewPatchsets cpw]\<rparr>) = (Inr (ready, dropped), s2)
                 \<longrightarrow> (\<forall>x \<in> set ready. \<exists>pre post.
                        evs = pre @ submission W s st cpw (tr @ ctx @ pre) x @ post))"
proof -
  let ?s1 = "s\<lparr>trace := trace s @ [PwGetNewPatchsets cpw]\<rparr>"
  let ?new = "pw_get_new_patchsets W (trace s) cpw"
  have quiet: "\<exists>js evs. t = s\<lparr>pj := pj s @ js, trace := tr @ ctx @ evs\<rparr>
           \<and> pending_marks_follow_builds W s st tr (ctx @ evs)
           \<and> (\<forall>ready dropped s2.
                 r = Inr () \<and> filter_patchsets W ?new ?s1 = (Inr (ready, dropped), s2)
                 \<longrightarrow> (\<forall>x \<in> set ready. \<exists>pre post.
                        evs = pre @ submission W s st cpw (tr @ ctx @ pre) x @ post))"
    if "t = s\<lparr>trace := trace s @ evs\<rparr>" "\<forall>e \<in> set evs. kind_of e \<noteq> Set_Pending"
      "r \<noteq> Inr ()" for t evs
    using that pending_marks_quiet [OF ctx that(2)]
    by (intro exI [of _ "[]"] exI [of _ evs]) (simp add: tr)
  from c show ?thesis
  proof (cases rule: check_patchwork_project_cases)
    case (filter_raises e)
    from filter_patchsets_effect [OF filter_raises(1)] obtain ef
      where "s' = ?s1\<lparr>trace := trace ?s1 @ ef\<rparr>" "\<forall>e \<in> set ef. kind_of e = Query"
      by blast
    then have "s' = s\<lparr>trace := trace s @ (PwGetNewPatchsets cpw # ef)\<rparr>"
      "\<forall>e \<in> set (PwGetNewPatchsets cpw # ef). kind_of e \<noteq> Set_Pending"
      by auto
    moreover have "r \<noteq> Inr ()" using filter_raises(2) by simp
    ultimately show ?thesis by (rule quiet)
  next
    case (drop_raises ready dropped s2 e)
    from filter_patchsets_effect [OF drop_raises(1)] obtain ef
      where s2: "s2 = ?s1\<lparr>trace := trace ?s1 @ ef\<rparr>" and kf: "\<forall>e \<in> set ef. kind_of e = Query"
      by blast
    from commit_dropped_effect [OF drop_raises(2)] obtain ed
      where s': "s' = s2\<lparr>trace := trace s2 @ ed\<rparr>"
        and kd: "\<forall>e \<in> set ed. kind_of e = Query \<or> kind_of e = Commit_Series"
      by blast
    have "s' = s\<lparr>trace := trace s @ (PwGetNewPatchsets cpw # ef @ ed)\<rparr>"
      using s2 s' by simp
    moreover have "\<forall>e \<in> set (PwGetNewPatchsets cpw # ef @ ed). kind_of e \<noteq> Set_Pending"
      using kf kd by auto
    moreover have "r \<noteq> Inr ()" using drop_raises(3) by simp
    ultimately show ?thesis by (rule quiet)
  next
    case (submits ready dropped s2 s3)
    from filter_patchsets_effect [OF submits(1)] obtain ef
      where s2: "s2 = ?s1\<lparr>trace := trace ?s1 @ ef\<rparr>" and kf: "\<forall>e \<in> set ef. kind_of e = Query"
      by blast
    from commit_dropped_effect [OF submits(2)] obtain ed
      where s3: "s3 = s2\<lparr>trace := trace s2 @ ed\<rparr>"
        and kd: "\<forall>e \<in> set ed. kind_of e = Query \<or> kind_of e = Commit_Series"
      by blast
    let ?exp = "db_get_expired_pending_patches W (trace s3) (pw_baseurl cpw)
                  (pw_project_id cpw) 43200"
    let ?g = "DbGetExpiredPendingPatches (pw_baseurl cpw) (pw_project_id cpw) 43200"
    let ?retry = "pw_get_patchsets W (trace s3 @ [?g]) cpw ?exp"
    let ?h = "PwGetNewPatchsets cpw # ef @ ed @ [?g]"
    let ?pre = "?h @ [PwGetPatchsets cpw ?exp]"
    let ?s5 = "s\<lparr>trace := tr @ (ctx @ ?pre)\<rparr>"
    have t3: "trace s3 @ [?g] = tr @ ctx @ ?h" using s2 s3 tr by simp
    have s5: "s3\<lparr>trace := trace s3 @ [?g, PwGetPatchsets cpw ?exp]\<rparr> = ?s5"
      using s2 s3 tr by simp
    have kp: "\<forall>e \<in> set ?pre. kind_of e \<noteq> Set_Pending" using kf kd by auto
    have p5: "pending_marks_follow_builds W ?s5 st tr (ctx @ ?pre)"
      using pending_marks_quiet [OF ctx kp] by simp
    have ready: "\<forall>x \<in> set ready. offered W cpw tr (ctx @ ?pre) x"
    proof
      fix x assume "x \<in> set ready"
      with filter_patchsets_ready_subset [OF submits(1)]
      have "x \<in> set (pw_get_new_patchsets W (tr @ ctx) cpw)" using tr by auto
      moreover have "ctx @ ?pre = ctx @ PwGetNewPatchsets cpw
                        # (ef @ ed @ [?g, PwGetPatchsets cpw ?exp])"
        by simp
      ultimately show "offered W cpw tr (ctx @ ?pre) x"
        unfolding offered_def by blast
    qed
    have retry: "\<forall>x \<in> set ?retry. offered W cpw tr (ctx @ ?pre) x"
    proof
      fix x assume "x \<in> set ?retry"
      then have "x \<in> set (pw_get_patchsets W (tr @ (ctx @ ?h)) cpw ?exp)"
        using t3 by simp
      moreover have "ctx @ ?pre = (ctx @ ?h) @ PwGetPatchsets cpw ?exp # []"
        by simp
      ultimately show "offered W cpw tr (ctx @ ?pre) x"
        unfolding offered_def by blast
    qed
    have all: "\<forall>x \<in> set (ready @ ?retry). offered W cpw tr (ctx @ ?pre) x"
      using ready retry by auto
    have c5: "cpw \<in> set (pw ?s5)" using cpw by simp
    have t5: "trace ?s5 = tr @ (ctx @ ?pre)" by simp
    from submit_series_pending [OF t5 p5 c5 all] obtain js post
      where sub: "submit_series W st cpw (ready @ ?retry) ?s5
                    = ?s5\<lparr>pj := pj ?s5 @ js, trace := tr @ (ctx @ ?pre) @ post\<rparr>"
        and pp: "pending_marks_follow_builds W s st tr ((ctx @ ?pre) @ post)"
        and tri: "\<forall>x \<in> set (ready @ ?retry). \<exists>a b.
                    post = a @ submission W s st cpw (tr @ (ctx @ ?pre) @ a) x @ b"
      by auto
    have 1: "s' = s\<lparr>pj := pj s @ js, trace := tr @ ctx @ (?pre @ post)\<rparr>"
      using submits(4) sub unfolding s5 by simp
    have 2: "pending_marks_follow_builds W s st tr (ctx @ (?pre @ post))"
      using pp by simp
    have 3: "\<forall>ready' dropped' s2'.
                 r = Inr () \<and> filter_patchsets W ?new ?s1 = (Inr (ready', dropped'), s2')
                 \<longrightarrow> (\<forall>x \<in> set ready'. \<exists>a b.
                        ?pre @ post = a @ submission W s st cpw (tr @ ctx @ a) x @ b)"
    proof (intro allI impI ballI)
      fix ready' dropped' s2' x
      assume "r = Inr () \<and> filter_patchsets W ?new ?s1 = (Inr (ready', dropped'), s2')"
        and "x \<in> set ready'"
      with submits(1) have "x \<in> set (ready @ ?retry)" by simp
      with tri obtain a b
        where "post = a @ submission W s st cpw (tr @ (ctx @ ?pre) @ a) x @ b"
        by blast
      then show "\<exists>a b. ?pre @ post = a @ submission W s st cpw (tr @ ctx @ a) x @ b"
        by (intro exI [of _ "?pre @ a"] exI [of _ b]) simp
    qed
    from 1 2 3 show ?thesis by blast
  qed
qed

lemma check_patchwork_loop_pending:
  "check_patchwork_loop W st ps s = (r, s') \<Longrightarrow> trace s = tr @ ctx \<Longrightarrow>
   pending_marks_follow_builds W s st tr ctx \<Longrightarrow> set ps \<subseteq> set (pw s) \<Longrightarrow>
   \<exists>js evs. s' = s\<lparr>pj := pj s @ js, trace := tr @ ctx @ evs\<rparr>
     \<and> pending_marks_follow_builds W s st tr (ctx @ evs)"
proof (induction ps arbitrary: s ctx)
  case Nil
  then show ?case by (intro exI [of _ "[]"]) simp
next
  case (Cons cpw ps)
  obtain r1 s1 where b: "check_patchwork_project W st cpw s = (r1, s1)"
    by (cases "check_patchwork_project W st cpw s")
  have cpw: "cpw \<in> set (pw s)" using Cons.prems(4) by simp
  from check_patchwork_project_pending [OF b Cons.prems(2,3) cpw] obtain j1 e1
    where s1: "s1 = s\<lparr>pj := pj s @ j1, trace := tr @ ctx @ e1\<rparr>"
      and p1: "pending_marks_follow_builds W s st tr (ctx @ e1)"
    by blast
  show ?case
  proof (cases r1)
    case (Inl e)
    with Cons.prems(1) b have "s' = s1" by simp
    with s1 p1 show ?thesis by blast
  next
    case (Inr u)
    with Cons.prems(1) b have l: "check_patchwork_loop W st ps s1 = (r, s')" by simp
    have t1: "trace s1 = tr @ (ctx @ e1)" using s1 by simp
    have q1: "pending_marks_follow_builds W s1 st tr (ctx @ e1)" using p1 s1 by simp
    have ps: "set ps \<subseteq> set (pw s1)" using Cons.prems(4) s1 by simp
    from Cons.IH [OF l t1 q1 ps] obtain j2 e2
      where s2: "s' = s1\<lparr>pj := pj s1 @ j2, trace := tr @ (ctx @ e1) @ e2\<rparr>"
        and p2: "pending_marks_follow_builds W s1 st tr ((ctx @ e1) @ e2)"
      by blast
    have "s' = s\<lparr>pj := pj s @ (j1 @ j2), trace := tr @ ctx @ (e1 @ e2)\<rparr>"
      using s1 s2 by simp
    moreover have "pending_marks_follow_builds W s st tr (ctx @ (e1 @ e2))"
      using p2 s1 by simp
    ultimately show ?thesis by blast
  qed
qed

text \<open>
  Claim C7. In the history \<^verbatim>\<open>check_patchwork\<close> adds, every \<^verbatim>\<open>set_patchset_pending\<close>
  is the third of three events that follow one another: the submission to the CI backend
  of the build of a series (the stable commit with the message id, subject, e-mail
  addresses and patch URLs of that series), the entry of the build number the backend
  returned into \<^verbatim>\<open>self.pj\<close>, and the pending mark for the patches of that same series
  and the project of the entry; the series is one the tracker answered with for that
  project earlier in the cycle. And in a batch that \<^verbatim>\<open>check_patchwork\<close> gets through,
  these three events are in the history, in this order, for every series the filter
  found ready.
\<close>

theorem pending_mark_after_submission:
  "(db_get_stable W (trace s) (baserepo s) = Some stablecommit \<longrightarrow>
      (\<exists>evs. trace (snd (check_patchwork W s)) = trace s @ evs
            \<and> pending_marks_follow_builds W s stablecommit (trace s) evs))
   \<and> (cpw \<in> set (pw s)
        \<and> filter_patchsets W (pw_get_new_patchsets W (trace s) cpw)
            (s\<lparr>trace := trace s @ [PwGetNewPatchsets cpw]\<rparr>) = (Inr (ready, dropped), s2)
        \<and> fst (check_patchwork_project W stablecommit cpw s) = Inr () \<longrightarrow>
      (\<forall>x \<in> set ready. \<exists>pre post.
         trace (snd (check_patchwork_project W stablecommit cpw s))
           = trace s @ pre @ submission W s stablecommit cpw (trace s @ pre) x @ post))"
proof (intro conjI impI)
  assume st: "db_get_stable W (trace s) (baserepo s) = Some stablecommit"
  show "\<exists>evs. trace (snd (check_patchwork W s)) = trace s @ evs
            \<and> pending_marks_follow_builds W s stablecommit (trace s) evs"
  proof (cases "stablecommit = []")
    case True
    with st have "trace (snd (check_patchwork W s)) = trace s @ [DbGetStable (baserepo s)]"
      by (simp add: check_patchwork_def Let_def log_event_def)
    moreover have "pending_marks_follow_builds W s stablecommit (trace s)
                     ([] @ [DbGetStable (baserepo s)])"
      by (rule pending_marks_quiet [OF pending_marks_empty]) simp
    ultimately show ?thesis by (intro exI [of _ "[DbGetStable (baserepo s)]"]) simp
  next
    case False
    let ?c = "[DbGetStable (baserepo s)]"
    let ?s1 = "s\<lparr>trace := trace s @ ?c\<rparr>"
    obtain r s' where l: "check_patchwork_loop W stablecommit (pw s) ?s1 = (r, s')"
      by (cases "check_patchwork_loop W stablecommit (pw s) ?s1")
    with False st have c: "check_patchwork W s = (r, s')"
      by (simp add: check_patchwork_def Let_def log_event_def)
    have t1: "trace ?s1 = trace s @ ?c" by simp
    have "pending_marks_follow_builds W s stablecommit (trace s) ([] @ ?c)"
      by (rule pending_marks_quiet [OF pending_marks_empty]) simp
    then have p1: "pending_marks_follow_builds W ?s1 stablecommit (trace s) ?c" by simp
    have ps: "set (pw s) \<subseteq> set (pw ?s1)" by simp
    from check_patchwork_loop_pending [OF l t1 p1 ps] obtain js evs
      where s': "s' = ?s1\<lparr>pj := pj ?s1 @ js, trace := trace s @ ?c @ evs\<rparr>"
        and p: "pending_marks_follow_builds W ?s1 stablecommit (trace s) (?c @ evs)"
      by blast
    have "trace (snd (check_patchwork W s)) = trace s @ (?c @ evs)"
      using c s' by simp
    moreover have "pending_marks_follow_builds W s stablecommit (trace s) (?c @ evs)"
      using p by simp
    ultimately show ?thesis by blast
  qed
next
  assume a: "cpw \<in> set (pw s)
        \<and> filter_patchsets W (pw_get_new_patchsets W (trace s) cpw)
            (s\<lparr>trace := trace s @ [PwGetNewPatchsets cpw]\<rparr>) = (Inr (ready, dropped), s2)
        \<and> fst (check_patchwork_project W stablecommit cpw s) = Inr ()"
  obtain r s' where c: "check_patchwork_project W stablecommit cpw s = (r, s')"
    by (cases "check_patchwork_project W stablecommit cpw s")
  with a have r: "r = Inr ()" by simp
  have t: "trace s = trace s @ []" by simp
  from a have cpw: "cpw \<in> set (pw s)" by simp
  from check_patchwork_project_pending [OF c t pending_marks_empty cpw] obtain js evs
    where s': "s' = s\<lparr>pj := pj s @ js, trace := trace s @ [] @ evs\<rparr>"
      and tri: "\<forall>ready dropped s2.
                 r = Inr () \<and>
                 filter_patchsets W (pw_get_new_patchsets W (trace s) cpw)
                   (s\<lparr>trace := trace s @ [PwGetNewPatchsets cpw]\<rparr>) = (Inr (ready, dropped), s2)
                 \<longrightarrow> (\<forall>x \<in> set ready. \<exists>pre post.
                        evs = pre @ submission W s stablecommit cpw (trace s @ [] @ pre) x @ post)"
    by blast
  show "\<forall>x \<in> set ready. \<exists>pre post.
         trace (snd (check_patchwork_project W stablecommit cpw s))
           = trace s @ pre @ submission W s stablecommit cpw (trace s @ pre) x @ post"
  proof
    fix x assume "x \<in> set ready"
    with tri r a obtain pre post
      where "evs = pre @ submission W s stablecommit cpw (trace s @ [] @ pre) x @ post"
      by blast
    with c s' show "\<exists>pre post.
         trace (snd (check_patchwork_project W stablecommit cpw s))
           = trace s @ pre @ submission W s stablecommit cpw (trace s @ pre) x @ post"
      by (intro exI [of _ pre] exI [of _ post]) simp
  qed
qed

text \<open>One cycle of \<^verbatim>\<open>check_patchwork\<close> on the sample inputs.\<close>

lemma demo_cycle:
  "check_patchwork demo_world demo_watcher
   = (Inr (),
      demo_watcher\<lparr>pj := [(PATCHWORK, 1, Some demo_pw)],
        trace :=
          [DbGetStable (Some ''git/linux''),
           PwGetNewPatchsets demo_pw,
           SubprocessCall [''filter.sh'', ''--cover'', ''pw/cover/100/mbox'',
                           ''pw/patch/101/mbox'', ''pw/patch/102/mbox''],
           SubprocessCall [''filter.sh'', ''pw/patch/103/mbox''],
           PwGetPatchById demo_pw 103,
           DbCommitSeries [(103, ''p'', ''pw/patch/103'', ''pw'', 1, ''2018-01-02T03:04:05'')],
           DbGetExpiredPendingPatches ''pw'' 1 43200,
           PwGetPatchsets demo_pw [],
           JkBuild (series_build_args demo_watcher ''c0de'' series_a),
           PjAppend (PATCHWORK, 1, Some demo_pw),
           DbSetPatchsetPending ''pw'' 1 (patch_info_list series_a)]\<rparr>)"
proof -
  let ?s1 = "demo_watcher\<lparr>trace := [DbGetStable (Some ''git/linux'')]\<rparr>"
  have f: "filter_patchsets demo_world [series_a, series_b]
             (demo_watcher\<lparr>trace := [DbGetStable (Some ''git/linux''), PwGetNewPatchsets demo_pw]\<rparr>)
           = (Inr ([series_a], [series_b]),
              demo_watcher\<lparr>trace :=
                [DbGetStable (Some ''git/linux''), PwGetNewPatchsets demo_pw,
                 SubprocessCall [''filter.sh'', ''--cover'', ''pw/cover/100/mbox'',
                                 ''pw/patch/101/mbox'', ''pw/patch/102/mbox''],
                 SubprocessCall [''filter.sh'', ''pw/patch/103/mbox'']]\<rparr>)"
    by (simp add: filter_patchsets_def filter_argv_def Let_def log_event_def demo_world_def
          demo_watcher_def set_baseline_def init_watcher_def series_a_def series_b_def)
  have m: "patch_url_match ''pw/patch/103'' = Some (''pw'', ''103'')"
    by (simp add: patch_url_match_def Let_def is_digit_def LF_def)
  have i: "py_int ''103'' = 103" by (simp add: py_int_def)
  have u: "patch_url_list series_b = [''pw/patch/103'']" by (simp add: series_b_def)
  have g: "pw_get_patch_by_id demo_world tr p n
           = \<lparr>pr_name = ''p'', pr_date = ''2018-01-02 03:04:05'', pr_project = 1,
              pr_project_id = 1\<rparr>"
    "pw_get_new_patchsets demo_world tr p = [series_a, series_b]"
    "db_get_stable demo_world tr rp = Some ''c0de''" for tr p n rp
    by (simp_all add: demo_world_def)
  have v: "pw_is_v2 demo_pw = False" "pw_baseurl demo_pw = ''pw''" "pw_project_id demo_pw = 1"
    by (simp_all add: demo_pw_def)
  have w: "db_get_expired_pending_patches demo_world tr b q a = []"
    "pw_get_patchsets demo_world tr p infos = []"
    "jk_build demo_world tr args = fold max (appended_bids tr) 0 + 1" for tr b q a p infos args
    by (simp_all add: demo_world_def)
  have t: "trace demo_watcher = []" "pj demo_watcher = []" "pw demo_watcher = [demo_pw]"
    "baserepo demo_watcher = Some ''git/linux''"
    by (simp_all add: demo_watcher_def set_baseline_def init_watcher_def)
  have b: "check_patchwork_project demo_world ''c0de'' demo_pw ?s1
           = (Inr (),
      demo_watcher\<lparr>pj := [(PATCHWORK, 1, Some demo_pw)],
        trace :=
          [DbGetStable (Some ''git/linux''),
           PwGetNewPatchsets demo_pw,
           SubprocessCall [''filter.sh'', ''--cover'', ''pw/cover/100/mbox'',
                           ''pw/patch/101/mbox'', ''pw/patch/102/mbox''],
           SubprocessCall [''filter.sh'', ''pw/patch/103/mbox''],
           PwGetPatchById demo_pw 103,
           DbCommitSeries [(103, ''p'', ''pw/patch/103'', ''pw'', 1, ''2018-01-02T03:04:05'')],
           DbGetExpiredPendingPatches ''pw'' 1 43200,
           PwGetPatchsets demo_pw [],
           JkBuild (series_build_args demo_watcher ''c0de'' series_a),
           PjAppend (PATCHWORK, 1, Some demo_pw),
           DbSetPatchsetPending ''pw'' 1 (patch_info_list series_a)]\<rparr>)"
    unfolding check_patchwork_project_def
    by (simp add: f t Let_def log_event_def u m i g v w
          get_patch_info_from_url_def replace_space_T_def)
  show ?thesis
    unfolding check_patchwork_def
    by (simp add: Let_def log_event_def g t b)
qed

theorem pending_mark_after_submission_witness:
  "db_get_stable demo_world (trace demo_watcher) (baserepo demo_watcher) = Some ''c0de''
   \<and> DbSetPatchsetPending ''pw'' 1 (patch_info_list series_a)
       \<in> set (trace (snd (check_patchwork demo_world demo_watcher)))
   \<and> (\<exists>evs. trace (snd (check_patchwork demo_world demo_watcher)) = trace demo_watcher @ evs
          \<and> pending_marks_follow_builds demo_world demo_watcher ''c0de''
               (trace demo_watcher) evs)
   \<and> fst (check_patchwork_project demo_world ''c0de'' demo_pw demo_watcher) = Inr ()
   \<and> (\<exists>pre post.
         trace (snd (check_patchwork_project demo_world ''c0de'' demo_pw demo_watcher))
           = trace demo_watcher @ pre
               @ submission demo_world demo_watcher ''c0de'' demo_pw (trace demo_watcher @ pre)
                   series_a
               @ post)"
proof -
  have h: "db_get_stable demo_world (trace demo_watcher) (baserepo demo_watcher) = Some ''c0de''"
    by (simp add: demo_world_def)
  have p: "DbSetPatchsetPending ''pw'' 1 (patch_info_list series_a)
             \<in> set (trace (snd (check_patchwork demo_world demo_watcher)))"
    by (simp add: demo_cycle)
  have f: "fst (check_patchwork_project demo_world ''c0de'' demo_pw demo_watcher) = Inr ()"
    by (simp add: demo_batch)
  have m: "demo_pw \<in> set (pw demo_watcher)"
    by (simp add: demo_watcher_def set_baseline_def init_watcher_def)
  have a: "series_a \<in> set [series_a]" by simp
  note t = pending_mark_after_submission
             [where W = demo_world and s = demo_watcher and stablecommit = "''c0de''"
                and cpw = demo_pw and ready = "[series_a]" and dropped = "[series_b]"]
  from t h have 1: "\<exists>evs. trace (snd (check_patchwork demo_world demo_watcher))
                            = trace demo_watcher @ evs
          \<and> pending_marks_follow_builds demo_world demo_watcher ''c0de''
               (trace demo_watcher) evs"
    by blast
  from t m demo_filter f a
  have 2: "\<exists>pre post.
         trace (snd (check_patchwork_project demo_world ''c0de'' demo_pw demo_watcher))
           = trace demo_watcher @ pre
               @ submission demo_world demo_watcher ''c0de'' demo_pw (trace demo_watcher @ pre)
                   series_a
               @ post"
    by blast
  from h p 1 f 2 show ?thesis by blast
qed

text \<open>The property is not met by a history in which the build of one series is followed
  by the pending mark for the patches of another.\<close>

lemma pending_marks_mismatch:
  "\<not> pending_marks_follow_builds demo_world demo_watcher ''c0de'' []
       ((PwGetNewPatchsets demo_pw
         # butlast (submission demo_world demo_watcher ''c0de'' demo_pw
                      [PwGetNewPatchsets demo_pw] series_a))
        @ [DbSetPatchsetPending ''pw'' 1 (patch_info_list series_b)])"
proof
  let ?sub = "submission demo_world demo_watcher ''c0de'' demo_pw [PwGetNewPatchsets demo_pw]"
  let ?X = "DbSetPatchsetPending ''pw'' 1 (patch_info_list series_b)"
  let ?pre = "PwGetNewPatchsets demo_pw # butlast (?sub series_a)"
  assume "pending_marks_follow_builds demo_world demo_watcher ''c0de'' [] (?pre @ [?X])"
  then obtain pre' x cpw
    where eq: "?pre @ [?X] = pre' @ submission demo_world demo_watcher ''c0de'' cpw ([] @ pre') x"
      and off: "offered demo_world cpw [] pre' x"
    unfolding pending_marks_follow_builds_def by blast
  from eq have pre': "pre' = [PwGetNewPatchsets demo_pw]"
    by (auto simp: submission_def)
  from eq pre' have m: "message_id x = message_id series_a"
    and i: "patch_info_list x = patch_info_list series_b"
    by (simp_all add: submission_def)
  from off pre' have "x \<in> set (pw_get_new_patchsets demo_world [] cpw)
                      \<or> (\<exists>infos. x \<in> set (pw_get_patchsets demo_world [] cpw infos))"
    by (auto simp: offered_def Cons_eq_append_conv)
  then have "x = series_a \<or> x = series_b" by (simp add: demo_world_def)
  with m i show False by (auto simp: series_a_def series_b_def)
qed

section \<open>The list of pending builds\<close>


























end
